theory Spec2Isabelle
  imports Main "HOL-Library.Word" "HOL-Library.Monad_Syntax"
begin

unbundle bit_operations_syntax

section \<open>Machine integers and byte order\<close>

type_synonym u8 = "8 word"
type_synonym u32 = "32 word"
type_synonym u64 = "64 word"

text \<open>
  The expression \<^verbatim>\<open>(b0 << 24) | (b1 << 16) | (b2 << 8) | b3\<close> that \<^verbatim>\<open>read32\<close>,
  \<^verbatim>\<open>FullBufBox::ui32\<close> and the NAL scan of \<^verbatim>\<open>main\<close> all use, converted to
  \<^verbatim>\<open>uint32_t\<close>.
\<close>

definition be32 :: "u8 \<Rightarrow> u8 \<Rightarrow> u8 \<Rightarrow> u8 \<Rightarrow> u32" where
  "be32 b0 b1 b2 b3 =
     push_bit 24 (ucast b0) OR push_bit 16 (ucast b1) OR push_bit 8 (ucast b2) OR ucast b3"

text \<open>\<^verbatim>\<open>(b0 << 16) | (b1 << 8) | b2\<close> of \<^verbatim>\<open>read24\<close>.\<close>

definition be24 :: "u8 \<Rightarrow> u8 \<Rightarrow> u8 \<Rightarrow> u32" where
  "be24 b0 b1 b2 = push_bit 16 (ucast b0) OR push_bit 8 (ucast b1) OR ucast b2"

section \<open>Full boxes that keep their raw payload (\<^verbatim>\<open>FullBufBox\<close>)\<close>

text \<open>
  \<^verbatim>\<open>class FullBufBox : public FullBox\<close>: the type tag and declared size of \<^verbatim>\<open>Box\<close>, the
  version and flags of \<^verbatim>\<open>FullBox\<close>, and the payload bytes \<^verbatim>\<open>buf\<close>.
\<close>

record fullbufbox =
  fb_type :: "u8 list"
  fb_size :: nat
  version :: u8
  flags :: u32
  buf :: "u8 list"

text \<open>
  \<^verbatim>\<open>ui32(int pos)\<close> indexes the vector without a bounds check. A read outside the vector, or
  at a position that does not fit the \<^verbatim>\<open>int\<close> parameter, is undefined behaviour in C++;
  the model returns \<open>None\<close> there.
\<close>

definition ui32 :: "fullbufbox \<Rightarrow> nat \<Rightarrow> u32 option" where
  "ui32 b pos =
     (if pos + 3 < length (buf b) \<and> pos + 3 < 2 ^ 31
      then Some (be32 (buf b ! pos) (buf b ! (pos + 1)) (buf b ! (pos + 2)) (buf b ! (pos + 3)))
      else None)"

text \<open>\<^verbatim>\<open>uint64_t h = ui32(pos); return h | ui32(pos+4);\<close>\<close>

definition ui64 :: "fullbufbox \<Rightarrow> nat \<Rightarrow> u64 option" where
  "ui64 b pos = do {
     h \<leftarrow> ui32 b pos;
     l \<leftarrow> ui32 b (pos + 4);
     Some ((ucast h :: u64) OR ucast l)
   }"

subsection \<open>Media header (\<^verbatim>\<open>BoxMDHD\<close>)\<close>

definition mdhd_created :: "fullbufbox \<Rightarrow> u64 option" where
  "mdhd_created b = (if version b = 0 then map_option ucast (ui32 b 0) else ui64 b 0)"

definition mdhd_modified :: "fullbufbox \<Rightarrow> u64 option" where
  "mdhd_modified b = (if version b = 0 then map_option ucast (ui32 b 4) else ui64 b 8)"

definition mdhd_timeScale :: "fullbufbox \<Rightarrow> u32 option" where
  "mdhd_timeScale b = (if version b = 0 then ui32 b (4 * 2) else ui32 b (8 * 2))"

definition mdhd_duration :: "fullbufbox \<Rightarrow> u64 option" where
  "mdhd_duration b =
     (if version b = 0 then map_option ucast (ui32 b (4 * 2 + 4)) else ui64 b (8 * 2 + 4))"

subsection \<open>Chunk-run table (\<^verbatim>\<open>BoxSTSC\<close>)\<close>

definition stsc_count :: "fullbufbox \<Rightarrow> u32 option" where
  "stsc_count b = ui32 b 0"

definition stsc_first :: "fullbufbox \<Rightarrow> nat \<Rightarrow> u32 option" where
  "stsc_first b n = ui32 b (4 + n * 12)"

definition stsc_spc :: "fullbufbox \<Rightarrow> nat \<Rightarrow> u32 option" where
  "stsc_spc b n = ui32 b (4 + n * 12 + 4)"

text \<open>
  The loop of \<^verbatim>\<open>BoxSTSC::sampleToChunk(int n)\<close>. Every use of \<^verbatim>\<open>n\<close> is against a
  \<^verbatim>\<open>uint32_t\<close>, so the usual arithmetic conversions turn it into a \<^verbatim>\<open>uint32_t\<close>; the
  model takes it as one. \<open>c\<close> is the run count, \<open>i\<close> the loop index. The integer division
  \<^verbatim>\<open>(n - ofs) / spc(i)\<close> is undefined for a zero divisor: \<open>None\<close>.
\<close>

function sampleToChunk_loop ::
  "fullbufbox \<Rightarrow> u32 \<Rightarrow> nat \<Rightarrow> nat \<Rightarrow> u32 \<Rightarrow> u32 \<Rightarrow> u32 \<Rightarrow> u32 \<Rightarrow> u32 option" where
  "sampleToChunk_loop b n c i ofs ch lch lspc =
     (if i < c then
        (case stsc_first b i of
           None \<Rightarrow> None
         | Some f \<Rightarrow>
             let ofs' = ofs + (f - lch) * lspc in
             if n < ofs' then Some (ch - 1)
             else (case stsc_spc b i of
                     None \<Rightarrow> None
                   | Some s \<Rightarrow>
                       if s = 0 then None
                       else sampleToChunk_loop b n c (Suc i) ofs' (f + (n - ofs') div s) f s))
      else Some (ch - 1))"
  by pat_completeness auto
termination
  by (relation "measure (\<lambda>(b, n, c, i, ofs, ch, lch, lspc). c - i)") auto

definition sampleToChunk :: "fullbufbox \<Rightarrow> u32 \<Rightarrow> u32 option" where
  "sampleToChunk b n =
     (case stsc_count b of
        None \<Rightarrow> None
      | Some c \<Rightarrow> sampleToChunk_loop b n (unat c) 0 0 1 1 1)"

subsection \<open>Decode-time run table (\<^verbatim>\<open>BoxSTTS\<close>)\<close>

definition stts_count :: "fullbufbox \<Rightarrow> u32 option" where
  "stts_count b = ui32 b 0"

text \<open>\<^verbatim>\<open>count(uint32_t n)\<close> and \<^verbatim>\<open>delta(uint32_t n)\<close> compute the position in \<^verbatim>\<open>uint32_t\<close>.\<close>

definition stts_count_at :: "fullbufbox \<Rightarrow> u32 \<Rightarrow> u32 option" where
  "stts_count_at b n = ui32 b (unat (4 + n * 8))"

definition stts_delta :: "fullbufbox \<Rightarrow> u32 \<Rightarrow> u32 option" where
  "stts_delta b n = ui32 b (unat (4 + n * 8 + 4))"

text \<open>
  The loop of \<^verbatim>\<open>BoxSTTS::sampleToTime(uint32_t n)\<close>. The accumulator \<^verbatim>\<open>t\<close> is a
  \<^verbatim>\<open>uint64_t\<close>, but both products \<^verbatim>\<open>n * delta(i)\<close> and \<^verbatim>\<open>count(i) * delta(i)\<close> multiply two
  \<^verbatim>\<open>uint32_t\<close> values, so they are computed in 32 bits and widened afterwards.
\<close>

function sampleToTime_loop ::
  "fullbufbox \<Rightarrow> nat \<Rightarrow> nat \<Rightarrow> u32 \<Rightarrow> u64 \<Rightarrow> u64 option" where
  "sampleToTime_loop b c i n t =
     (if i < c then
        (case stts_count_at b (of_nat i) of
           None \<Rightarrow> None
         | Some cnt \<Rightarrow>
             (case stts_delta b (of_nat i) of
                None \<Rightarrow> None
              | Some d \<Rightarrow>
                  if n < cnt then Some (t + ucast (n * d))
                  else sampleToTime_loop b c (Suc i) (n - cnt) (t + ucast (cnt * d))))
      else Some t)"
  by pat_completeness auto
termination
  by (relation "measure (\<lambda>(b, c, i, n, t). c - i)") auto

definition sampleToTime :: "fullbufbox \<Rightarrow> u32 \<Rightarrow> u64 option" where
  "sampleToTime b n =
     (case stts_count b of
        None \<Rightarrow> None
      | Some c \<Rightarrow> sampleToTime_loop b (unat c) 0 n 0)"


section \<open>The input stream\<close>

text \<open>
  A \<^verbatim>\<open>std::istream\<close> over a file: the file's bytes, the get position and the two state
  bits the decoder depends on. \<^verbatim>\<open>size_t\<close> is taken to be 64 bits wide, and a seek to any
  position that fits a \<^verbatim>\<open>streamoff\<close> is taken to succeed, as it does on a file.
\<close>

record istream =
  data :: "u8 list"
  gpos :: nat
  failbit :: bool
  eofbit :: bool

text \<open>
  \<^verbatim>\<open>is.read(p, n)\<close>: nothing is read from a stream that is not good; a short read stores
  the bytes that are there and sets both bits. The result is the bytes stored.
\<close>

definition is_read :: "nat \<Rightarrow> istream \<Rightarrow> u8 list \<times> istream" where
  "is_read n s =
     (if failbit s \<or> eofbit s then ([], s\<lparr>failbit := True\<rparr>)
      else let got = take n (drop (gpos s) (data s)) in
        if length got < n
        then (got, s\<lparr>gpos := gpos s + length got, failbit := True, eofbit := True\<rparr>)
        else (got, s\<lparr>gpos := gpos s + n\<rparr>))"

text \<open>\<^verbatim>\<open>is.tellg()\<close> stored in a \<^verbatim>\<open>size_t\<close>: \<open>-1\<close>, that is \<open>2^64 - 1\<close>, once the stream failed.\<close>

definition tellg :: "istream \<Rightarrow> nat" where
  "tellg s = (if failbit s then 2 ^ 64 - 1 else gpos s)"

text \<open>
  \<^verbatim>\<open>is.seekg(pos, std::ios_base::beg)\<close> (C++11): clears \<^verbatim>\<open>eofbit\<close>, then does nothing on a
  failed stream; a \<^verbatim>\<open>size_t\<close> beyond the range of \<^verbatim>\<open>streamoff\<close> is a negative offset, and
  the seek fails.
\<close>

definition seekg :: "nat \<Rightarrow> istream \<Rightarrow> istream" where
  "seekg p s =
     (let s1 = s\<lparr>eofbit := False\<rparr> in
      if failbit s1 then s1
      else if p < 2 ^ 63 then s1\<lparr>gpos := p\<rparr>
      else s1\<lparr>failbit := True\<rparr>)"

text \<open>\<^verbatim>\<open>size_t\<close> arithmetic of the decoder: \<^verbatim>\<open>a + b\<close> and \<^verbatim>\<open>a - b\<close> modulo \<open>2^64\<close>.\<close>

definition size_add :: "nat \<Rightarrow> nat \<Rightarrow> nat" where
  "size_add a b = (a + b) mod 2 ^ 64"

definition size_sub :: "nat \<Rightarrow> nat \<Rightarrow> nat" where
  "size_sub a b = (a + 2 ^ 64 - b mod 2 ^ 64) mod 2 ^ 64"

text \<open>
  The primitives read into an uninitialised array on the stack: after a short read their
  result is indeterminate, which is \<open>None\<close> here.
\<close>

definition read32 :: "istream \<Rightarrow> u32 option \<times> istream" where
  "read32 s =
     (let (bs, s') = is_read 4 s in
      (if length bs = 4 then Some (be32 (bs ! 0) (bs ! 1) (bs ! 2) (bs ! 3)) else None, s'))"

definition read24 :: "istream \<Rightarrow> u32 option \<times> istream" where
  "read24 s =
     (let (bs, s') = is_read 3 s in
      (if length bs = 3 then Some (be24 (bs ! 0) (bs ! 1) (bs ! 2)) else None, s'))"

definition read8 :: "istream \<Rightarrow> u8 option \<times> istream" where
  "read8 s =
     (let (bs, s') = is_read 1 s in
      (if length bs = 1 then Some (bs ! 0) else None, s'))"

section \<open>Writing\<close>

definition write8 :: "u8 \<Rightarrow> u8 list" where
  "write8 d = [d]"

definition write24 :: "u32 \<Rightarrow> u8 list" where
  "write24 d = [ucast (drop_bit 16 d), ucast (drop_bit 8 d), ucast d]"

definition write32 :: "u32 \<Rightarrow> u8 list" where
  "write32 d = [ucast (drop_bit 24 d), ucast (drop_bit 16 d), ucast (drop_bit 8 d), ucast d]"

section \<open>The box tree\<close>

text \<open>
  The fields of \<^verbatim>\<open>BoxMVHD\<close> that its decoder assigns only for version 0.
\<close>

record mvhd_fields =
  created :: u32
  modified :: u32
  timeScale :: u32
  duration :: u64
  rate :: u32
  volume :: u32

text \<open>
  One constructor for each class that \<^verbatim>\<open>createBox\<close> instantiates. The first argument after
  the type tag is the declared size (\<^verbatim>\<open>Box::size\<close>). \<^verbatim>\<open>BoxMDHD\<close>, \<^verbatim>\<open>BoxTKHD\<close>, \<^verbatim>\<open>BoxHDLR\<close>
  and the sample-table leaves add accessors only to \<^verbatim>\<open>FullBufBox\<close>, so they share its
  constructor. The fields of a \<^verbatim>\<open>BoxMVHD\<close> whose version is not 0 are never assigned:
  \<open>None\<close>.
\<close>

datatype box =
    BoxFTYP nat "u8 list" u32 "u8 list list"
  | BoxFREE nat "u8 list"
  | BoxMVHD nat u8 u32 "mvhd_fields option" "u8 list"
  | FullBufBox fullbufbox
  | BoxSimpleList "u8 list" nat "box list"
  | UnknownBoxRef "u8 list" nat int
  | UnknownBox "u8 list" nat "u8 list"

text \<open>
  What the program has instead of a result: the two exceptions it can throw and never
  catches (\<^verbatim>\<open>std::length_error\<close> from a \<^verbatim>\<open>resize\<close>, \<^verbatim>\<open>std::out_of_range\<close> from
  \<^verbatim>\<open>substr\<close>), a value that depends on memory that was never written, undefined behaviour
  (a read outside a vector, a division by zero, an \<^verbatim>\<open>int\<close> that overflows), and, for the
  loops that need not end, fuel that ran out.
\<close>

datatype perr =
    LengthError
  | OutOfRange
  | Indeterminate
  | Undefined
  | OutOfFuel

definition bindE :: "perr + 'a \<Rightarrow> ('a \<Rightarrow> perr + 'b) \<Rightarrow> perr + 'b" where
  "bindE m f = (case m of Inl e \<Rightarrow> Inl e | Inr x \<Rightarrow> f x)"

text \<open>A primitive read whose value is used: indeterminate after a short read.\<close>

definition need :: "'a option \<times> istream \<Rightarrow> perr + ('a \<times> istream)" where
  "need r = (case fst r of None \<Rightarrow> Inl Indeterminate | Some v \<Rightarrow> Inr (v, snd r))"

text \<open>
  \<^verbatim>\<open>std::vector::resize(n)\<close> throws \<^verbatim>\<open>std::length_error\<close> beyond \<^verbatim>\<open>max_size()\<close>, which is what
  \<^verbatim>\<open>sz - 8\<close> and \<^verbatim>\<open>sz - 12\<close> are for a declared size below the header length. Nothing in the
  program catches it. Below that bound the allocation is taken to succeed.
\<close>

definition resize_ok :: "nat \<Rightarrow> bool" where
  "resize_ok n \<longleftrightarrow> n < 2 ^ 63"

text \<open>The type tags, as the bytes of \<^verbatim>\<open>"ftyp"\<close>, \<^verbatim>\<open>"free"\<close>, ...\<close>

definition BOX_FTYP :: "u8 list" where "BOX_FTYP = [0x66, 0x74, 0x79, 0x70]"
definition BOX_FREE :: "u8 list" where "BOX_FREE = [0x66, 0x72, 0x65, 0x65]"
definition BOX_MOOV :: "u8 list" where "BOX_MOOV = [0x6D, 0x6F, 0x6F, 0x76]"
definition BOX_MVHD :: "u8 list" where "BOX_MVHD = [0x6D, 0x76, 0x68, 0x64]"
definition BOX_MDIA :: "u8 list" where "BOX_MDIA = [0x6D, 0x64, 0x69, 0x61]"
definition BOX_MDHD :: "u8 list" where "BOX_MDHD = [0x6D, 0x64, 0x68, 0x64]"
definition BOX_MINF :: "u8 list" where "BOX_MINF = [0x6D, 0x69, 0x6E, 0x66]"
definition BOX_MDAT :: "u8 list" where "BOX_MDAT = [0x6D, 0x64, 0x61, 0x74]"
definition BOX_HDLR :: "u8 list" where "BOX_HDLR = [0x68, 0x64, 0x6C, 0x72]"
definition BOX_STCO :: "u8 list" where "BOX_STCO = [0x73, 0x74, 0x63, 0x6F]"
definition BOX_STSC :: "u8 list" where "BOX_STSC = [0x73, 0x74, 0x73, 0x63]"
definition BOX_STSD :: "u8 list" where "BOX_STSD = [0x73, 0x74, 0x73, 0x64]"
definition BOX_STTS :: "u8 list" where "BOX_STTS = [0x73, 0x74, 0x74, 0x73]"
definition BOX_STSZ :: "u8 list" where "BOX_STSZ = [0x73, 0x74, 0x73, 0x7A]"
definition BOX_STSS :: "u8 list" where "BOX_STSS = [0x73, 0x74, 0x73, 0x73]"
definition BOX_STBL :: "u8 list" where "BOX_STBL = [0x73, 0x74, 0x62, 0x6C]"
definition BOX_CTTS :: "u8 list" where "BOX_CTTS = [0x63, 0x74, 0x74, 0x73]"
definition BOX_TRAK :: "u8 list" where "BOX_TRAK = [0x74, 0x72, 0x61, 0x6B]"
definition BOX_TKHD :: "u8 list" where "BOX_TKHD = [0x74, 0x6B, 0x68, 0x64]"
definition BOX_DTS :: "u8 list" where "BOX_DTS = [0x64, 0x74, 0x73, 0x00]"
definition BOX_UDTA :: "u8 list" where "BOX_UDTA = [0x75, 0x64, 0x74, 0x61]"

text \<open>\<^verbatim>\<open>memcmp(t1, t2, 4) == 0\<close>\<close>

definition chktype :: "u8 list \<Rightarrow> u8 list \<Rightarrow> bool" where
  "chktype t1 t2 \<longleftrightarrow> take 4 t1 = take 4 t2"

definition has_child :: "u8 list \<Rightarrow> bool" where
  "has_child ty \<longleftrightarrow>
     chktype ty BOX_MOOV \<or> chktype ty BOX_TRAK \<or> chktype ty BOX_DTS \<or> chktype ty BOX_MDIA \<or>
     chktype ty BOX_MINF \<or> chktype ty BOX_STBL \<or> chktype ty BOX_UDTA"

subsection \<open>Leaf decoders\<close>

text \<open>
  The loop of \<^verbatim>\<open>BoxFTYP::parse\<close>: \<open>k\<close> times, four bytes are read into a local and pushed
  as they are.
\<close>

fun read_compat :: "nat \<Rightarrow> istream \<Rightarrow> perr + (u8 list list \<times> istream)" where
  "read_compat 0 s = Inr ([], s)"
| "read_compat (Suc k) s =
     (let (bs, s1) = is_read 4 s in
      if length bs < 4 then Inl Indeterminate
      else (case read_compat k s1 of
              Inl e \<Rightarrow> Inl e
            | Inr (ws, s2) \<Rightarrow> Inr (bs # ws, s2)))"

text \<open>
  \<^verbatim>\<open>BoxFTYP::parse\<close>. The loop bound \<^verbatim>\<open>(size-16)/4\<close> is computed in \<^verbatim>\<open>size_t\<close>; for a declared
  size below 16 it is beyond what the \<^verbatim>\<open>int\<close> counter can reach.
\<close>

definition ftyp_parse :: "nat \<Rightarrow> istream \<Rightarrow> perr + (box \<times> istream)" where
  "ftyp_parse sz s =
     (let pos = tellg s;
          (major, s1) = is_read 4 s
      in if length major < 4 then Inl Indeterminate
         else bindE (need (read32 s1)) (\<lambda>(minor, s2).
           let k = size_sub sz 16 div 4 in
           if \<not> k < 2 ^ 31 then Inl Undefined
           else bindE (read_compat k s2) (\<lambda>(brands, s3).
             Inr (BoxFTYP sz major minor brands, seekg (size_sub (size_add pos sz) 8) s3))))"

text \<open>\<^verbatim>\<open>BoxFREE\<close>: the constructor sizes \<^verbatim>\<open>body\<close>, \<^verbatim>\<open>parse\<close> fills it.\<close>

definition free_parse :: "nat \<Rightarrow> istream \<Rightarrow> perr + (box \<times> istream)" where
  "free_parse sz s =
     (let n = size_sub sz 8 in
      if \<not> resize_ok n then Inl LengthError
      else let (bs, s1) = is_read n s in
           Inr (BoxFREE sz (bs @ replicate (n - length bs) 0), s1))"

text \<open>
  \<^verbatim>\<open>BoxMVHD::parse\<close>: the position is taken and never used; a version other than 0 returns
  after the four bytes of \<^verbatim>\<open>FullBox::parse\<close>.
\<close>

definition mvhd_parse :: "nat \<Rightarrow> istream \<Rightarrow> perr + (box \<times> istream)" where
  "mvhd_parse sz s =
     bindE (need (read8 s)) (\<lambda>(v, s1).
     bindE (need (read24 s1)) (\<lambda>(fl, s2).
       if v \<noteq> 0 then Inr (BoxMVHD sz v fl None [], s2)
       else
         bindE (need (read32 s2)) (\<lambda>(cr, s3).
         bindE (need (read32 s3)) (\<lambda>(mo, s4).
         bindE (need (read32 s4)) (\<lambda>(ts, s5).
         bindE (need (read32 s5)) (\<lambda>(du, s6).
         bindE (need (read32 s6)) (\<lambda>(ra, s7).
         bindE (need (read32 s7)) (\<lambda>(vo, s8).
           let n = size_sub sz (8 + 4 + 4 * 6) in
           if \<not> resize_ok n then Inl LengthError
           else let (bs, s9) = is_read n s8 in
             Inr (BoxMVHD sz v fl
                    (Some \<lparr>created = cr, modified = mo, timeScale = ts, duration = ucast du,
                           rate = ra, volume = vo\<rparr>)
                    (bs @ replicate (n - length bs) 0), s9)))))))))"

text \<open>\<^verbatim>\<open>FullBufBox\<close>: the constructor sizes \<^verbatim>\<open>buf\<close> to \<^verbatim>\<open>sz - 12\<close>, \<^verbatim>\<open>parse\<close> fills it.\<close>

definition fullbuf_parse :: "u8 list \<Rightarrow> nat \<Rightarrow> istream \<Rightarrow> perr + (box \<times> istream)" where
  "fullbuf_parse ty sz s =
     (let n = size_sub sz 12 in
      if \<not> resize_ok n then Inl LengthError
      else
        bindE (need (read8 s)) (\<lambda>(v, s1).
        bindE (need (read24 s1)) (\<lambda>(fl, s2).
          let (bs, s3) = is_read n s2 in
          Inr (FullBufBox \<lparr>fb_type = ty, fb_size = sz, version = v, flags = fl,
                           buf = bs @ replicate (n - length bs) 0\<rparr>, s3))))"

definition unknown_parse :: "u8 list \<Rightarrow> nat \<Rightarrow> istream \<Rightarrow> perr + (box \<times> istream)" where
  "unknown_parse ty sz s =
     (let n = size_sub sz 8 in
      if \<not> resize_ok n then Inl LengthError
      else let (bs, s1) = is_read n s in
           Inr (UnknownBox ty sz (bs @ replicate (n - length bs) 0), s1))"

text \<open>\<^verbatim>\<open>UnknownBoxRef::parse\<close>: the offset is a \<^verbatim>\<open>long long\<close>, \<open>-1\<close> on a failed stream.\<close>

definition unknownref_parse :: "u8 list \<Rightarrow> nat \<Rightarrow> istream \<Rightarrow> perr + (box \<times> istream)" where
  "unknownref_parse ty sz s =
     (let offset = (if failbit s then - 1 else int (gpos s));
          pos = tellg s
      in Inr (UnknownBoxRef ty sz offset, seekg (size_sub (size_add pos sz) 8) s))"


subsection \<open>Dispatch and containers\<close>

text \<open>
  \<^verbatim>\<open>createBox\<close> and \<^verbatim>\<open>BoxSimpleList::parse\<close> call each other, and a container whose declared
  size is below 8 seeks backwards, so the traversal need not end: the first argument is
  fuel, spent on every call, and \<open>Inl OutOfFuel\<close> says it ran out.

  \<open>parse_loop\<close> is the \<^verbatim>\<open>while\<close> loop of \<^verbatim>\<open>BoxSimpleList::parse\<close> with the end position
  \<open>pos\<close> and the children pushed so far; after a child is created the loop goes straight
  back to its test. \<open>simplelist_parse\<close> is the whole function: the end position, the loop,
  and the final seek.
\<close>

fun createBox :: "nat \<Rightarrow> u8 list \<Rightarrow> nat \<Rightarrow> istream \<Rightarrow> perr + (box \<times> istream)"
  and simplelist_parse :: "nat \<Rightarrow> u8 list \<Rightarrow> nat \<Rightarrow> istream \<Rightarrow> perr + (box \<times> istream)"
  and parse_loop :: "nat \<Rightarrow> nat \<Rightarrow> istream \<Rightarrow> box list \<Rightarrow> perr + (box list \<times> istream)"
where
  "createBox fuel boxtype sz s =
     (if chktype boxtype BOX_FTYP then ftyp_parse sz s
      else if chktype boxtype BOX_FREE then free_parse sz s
      else if chktype boxtype BOX_MVHD then mvhd_parse sz s
      else if chktype boxtype BOX_MDHD then fullbuf_parse BOX_MDHD sz s
      else if chktype boxtype BOX_TKHD then fullbuf_parse BOX_TKHD sz s
      else if chktype boxtype BOX_HDLR then fullbuf_parse BOX_HDLR sz s
      else if chktype boxtype BOX_STSC then fullbuf_parse BOX_STSC sz s
      else if chktype boxtype BOX_STSD then fullbuf_parse BOX_STSD sz s
      else if chktype boxtype BOX_STSS then fullbuf_parse BOX_STSS sz s
      else if chktype boxtype BOX_STSZ then fullbuf_parse BOX_STSZ sz s
      else if chktype boxtype BOX_STCO then fullbuf_parse BOX_STCO sz s
      else if chktype boxtype BOX_STTS then fullbuf_parse BOX_STTS sz s
      else if chktype boxtype BOX_CTTS then fullbuf_parse BOX_CTTS sz s
      else if has_child boxtype then simplelist_parse fuel boxtype sz s
      else if sz > 1024 * 1024 * 10 then unknownref_parse boxtype sz s
      else unknown_parse boxtype sz s)"
| "simplelist_parse 0 boxtype sz s = Inl OutOfFuel"
| "simplelist_parse (Suc fuel) boxtype sz s =
     (let pos = size_sub (size_add (tellg s) sz) 8 in
      case parse_loop fuel pos s [] of
        Inl e \<Rightarrow> Inl e
      | Inr (children, s') \<Rightarrow> Inr (BoxSimpleList boxtype sz children, seekg pos s'))"
| "parse_loop 0 pos s children = Inl OutOfFuel"
| "parse_loop (Suc fuel) pos s children =
     (if tellg s < pos then
        (case read32 s of (szo, s1) \<Rightarrow>
           (case is_read 4 s1 of (ty, s2) \<Rightarrow>
              if eofbit s2 then Inr (children, s2)
              else (case szo of
                      None \<Rightarrow> Inl Indeterminate
                    | Some sz \<Rightarrow>
                        (case createBox fuel ty (unat sz) s2 of
                           Inl e \<Rightarrow> Inl e
                         | Inr (b, s3) \<Rightarrow> parse_loop fuel pos s3 (children @ [b])))))
      else Inr (children, s))"

text \<open>\<^verbatim>\<open>Mp4Root\<close> is a \<^verbatim>\<open>BoxSimpleList\<close> of type \<^verbatim>\<open>"ROOT"\<close> and size \<^verbatim>\<open>0x7fffffff\<close>.\<close>

definition mp4root_parse :: "nat \<Rightarrow> istream \<Rightarrow> perr + (box \<times> istream)" where
  "mp4root_parse fuel s = simplelist_parse fuel [0x52, 0x4F, 0x4F, 0x54] 0x7fffffff s"

subsection \<open>Serialisation\<close>

text \<open>
  \<^verbatim>\<open>write\<close> returns nothing and has no way to report a failure; the bytes it appends to the
  output stream are the result here, and the output stream is taken never to fail.
  \<open>Inl\<close> stands only for output that depends on a field that was never assigned.

  \<open>box_header\<close> is what \<^verbatim>\<open>Box::write\<close> emits before the children: the size, converted to
  \<^verbatim>\<open>uint32_t\<close>, and the type.
\<close>

definition box_header :: "u8 list \<Rightarrow> nat \<Rightarrow> u8 list" where
  "box_header ty sz = write32 (of_nat sz) @ take 4 ty"

definition fullbox_header :: "u8 list \<Rightarrow> nat \<Rightarrow> u8 \<Rightarrow> u32 \<Rightarrow> u8 list" where
  "fullbox_header ty sz v fl = box_header ty sz @ write8 v @ write24 fl"

fun box_write :: "box \<Rightarrow> perr + u8 list"
  and boxes_write :: "box list \<Rightarrow> perr + u8 list"
where
  "box_write (BoxFTYP sz major minor brands) =
     Inr (box_header BOX_FTYP sz @ major @ write32 minor @ concat brands)"
| "box_write (BoxFREE sz body) =
     Inr (box_header BOX_FREE sz @ (if sz > 8 then take (size_sub sz 8) body else []))"
| "box_write (BoxMVHD sz v fl fs trailing) =
     (case fs of
        None \<Rightarrow> Inl Indeterminate
      | Some f \<Rightarrow>
          Inr (fullbox_header BOX_MVHD sz v fl @
               write32 (created f) @ write32 (modified f) @ write32 (timeScale f) @
               write32 (ucast (duration f)) @ write32 (rate f) @ write32 (volume f) @ trailing))"
| "box_write (FullBufBox b) =
     Inr (fullbox_header (fb_type b) (fb_size b) (version b) (flags b) @
          (if fb_size b > 8 then take (size_sub (fb_size b) 12) (buf b) else []))"
| "box_write (BoxSimpleList ty sz children) =
     (case boxes_write children of
        Inl e \<Rightarrow> Inl e
      | Inr bs \<Rightarrow> Inr (box_header ty sz @ bs))"
| "box_write (UnknownBoxRef ty sz offset) = Inr []"
| "box_write (UnknownBox ty sz body) =
     Inr (box_header ty sz @ (if sz > 8 then take (size_sub sz 8) body else []))"
| "boxes_write [] = Inr []"
| "boxes_write (b # bs) =
     (case box_write b of
        Inl e \<Rightarrow> Inl e
      | Inr x \<Rightarrow> (case boxes_write bs of Inl e \<Rightarrow> Inl e | Inr y \<Rightarrow> Inr (x @ y)))"

text \<open>\<^verbatim>\<open>Mp4Root::write\<close> emits the children only.\<close>

definition mp4root_write :: "box \<Rightarrow> perr + u8 list" where
  "mp4root_write root =
     (case root of BoxSimpleList ty sz children \<Rightarrow> boxes_write children | _ \<Rightarrow> box_write root)"


section \<open>The remaining sample-table leaves\<close>

definition ub :: "'a option \<Rightarrow> perr + 'a" where
  "ub x = (case x of None \<Rightarrow> Inl Undefined | Some v \<Rightarrow> Inr v)"

subsection \<open>Composition-offset run table (\<^verbatim>\<open>BoxCTTS\<close>)\<close>

definition ctts_count :: "fullbufbox \<Rightarrow> u32 option" where
  "ctts_count b = ui32 b 0"

definition ctts_count_at :: "fullbufbox \<Rightarrow> u32 \<Rightarrow> u32 option" where
  "ctts_count_at b n = ui32 b (unat (4 + 8 * n))"

definition ctts_offset :: "fullbufbox \<Rightarrow> u32 \<Rightarrow> u32 option" where
  "ctts_offset b n = ui32 b (unat (4 + 8 * n + 4))"

function sampleToOffset_loop ::
  "fullbufbox \<Rightarrow> u32 \<Rightarrow> nat \<Rightarrow> nat \<Rightarrow> u32 \<Rightarrow> u32 \<Rightarrow> u32 option" where
  "sampleToOffset_loop b n c i ofs s =
     (if i < c then
        (case ctts_offset b (of_nat i) of
           None \<Rightarrow> None
         | Some ofs' \<Rightarrow>
             (case ctts_count_at b (of_nat i) of
                None \<Rightarrow> None
              | Some k \<Rightarrow>
                  if n < s + k then Some ofs'
                  else sampleToOffset_loop b n c (Suc i) ofs' (s + k)))
      else Some ofs)"
  by pat_completeness auto
termination
  by (relation "measure (\<lambda>(b, n, c, i, ofs, s). c - i)") auto

definition sampleToOffset :: "fullbufbox \<Rightarrow> u32 \<Rightarrow> u32 option" where
  "sampleToOffset b n =
     (case ctts_count b of
        None \<Rightarrow> None
      | Some c \<Rightarrow> sampleToOffset_loop b n (unat c) 0 0 0)"

subsection \<open>Chunk offsets (\<^verbatim>\<open>BoxSTCO\<close>), sample sizes (\<^verbatim>\<open>BoxSTSZ\<close>), sample description (\<^verbatim>\<open>BoxSTSD\<close>)\<close>

definition stco_count :: "fullbufbox \<Rightarrow> u32 option" where
  "stco_count b = ui32 b 0"

definition stco_offset :: "fullbufbox \<Rightarrow> nat \<Rightarrow> u32 option" where
  "stco_offset b pos = ui32 b (4 + pos * 4)"

definition stsz_constantSize :: "fullbufbox \<Rightarrow> u32 option" where
  "stsz_constantSize b = ui32 b 0"

definition stsz_count :: "fullbufbox \<Rightarrow> u32 option" where
  "stsz_count b = ui32 b 4"

definition stsz_size :: "fullbufbox \<Rightarrow> nat \<Rightarrow> u32 option" where
  "stsz_size b pos = ui32 b (8 + pos * 4)"

text \<open>\<^verbatim>\<open>std::string((char*)&buf[8],4)\<close> and \<^verbatim>\<open>std::string((char*)&buf[12],ui32(4) - 8)\<close>\<close>

definition stsd_typeAsString :: "fullbufbox \<Rightarrow> u8 list option" where
  "stsd_typeAsString b = (if 8 + 4 \<le> length (buf b) then Some (take 4 (drop 8 (buf b))) else None)"

definition stsd_desc :: "fullbufbox \<Rightarrow> u8 list option" where
  "stsd_desc b = do {
     l \<leftarrow> ui32 b 4;
     let k = unat (l - 8);
     if 12 + k \<le> length (buf b) then Some (take k (drop 12 (buf b))) else None
   }"

definition tkhd_width :: "fullbufbox \<Rightarrow> u32 option" where
  "tkhd_width b = (if version b = 0 then ui32 b (4 * 3 + 4 * 15) else ui32 b (8 * 3 + 4 * 15))"

section \<open>The FLV side (\<^verbatim>\<open>flv.h\<close>)\<close>

definition TAG_TYPE_VIDEO :: u8 where "TAG_TYPE_VIDEO = 9"
definition VCODEC_AVC :: u8 where "VCODEC_AVC = 7"

record FLVTagHeader =
  th_type :: u8
  th_size :: u32
  th_timestamp :: u32
  th_stream_id :: u32

text \<open>\<^verbatim>\<open>operator<<(std::ostream&, const FLVTagHeader&)\<close>: eleven bytes.\<close>

definition write_tag_header :: "FLVTagHeader \<Rightarrow> u8 list" where
  "write_tag_header th =
     write8 (th_type th) @ write24 (th_size th) @ write24 (th_timestamp th) @
     write8 (ucast (drop_bit 24 (th_timestamp th))) @ write24 (th_stream_id th)"

text \<open>\<^verbatim>\<open>FLVHeader fh = {{'F','L','V'}, 1, 0x05, 9}\<close> as \<^verbatim>\<open>operator<<\<close> writes it.\<close>

definition write_flv_header :: "u8 list" where
  "write_flv_header = [0x46, 0x4C, 0x56] @ write8 1 @ write8 0x05 @ write32 9"

section \<open>The remux pipeline (\<^verbatim>\<open>main\<close>)\<close>

text \<open>
  The output stream is the list of bytes written so far, so \<^verbatim>\<open>of.tellp()\<close> is its length.
  \<^verbatim>\<open>write32(of, (uint32_t)of.tellp() - prev); prev = of.tellp();\<close> ends both the
  sequence-header block and the body of the sample loop. The difference is taken in
  \<^verbatim>\<open>size_t\<close> and converted to \<^verbatim>\<open>uint32_t\<close> by the call, which is the difference in 32 bits.
\<close>

definition write_back_pointer :: "u8 list \<Rightarrow> nat \<Rightarrow> u8 list \<times> nat" where
  "write_back_pointer out prev =
     (let out' = out @ write32 (of_nat (length out) - of_nat prev) in (out', length out'))"

text \<open>\<^verbatim>\<open>std::string::find\<close> from the start: the first index where the pattern begins.\<close>

fun find_sub :: "u8 list \<Rightarrow> u8 list \<Rightarrow> nat \<Rightarrow> nat option" where
  "find_sub pat [] i = (if pat = [] then Some i else None)"
| "find_sub pat (x # xs) i =
     (if take (length pat) (x # xs) = pat then Some i else find_sub pat xs (Suc i))"

text \<open>
  \<^verbatim>\<open>int p = desc.find("avcC"); string config = desc.substr(p + 4);\<close> where \<^verbatim>\<open>npos\<close> becomes
  \<open>-1\<close>, and \<^verbatim>\<open>substr\<close> throws when the start is beyond the end.
\<close>

definition avc_config :: "u8 list \<Rightarrow> perr + u8 list" where
  "avc_config desc =
     (case find_sub [0x61, 0x76, 0x63, 0x43] desc 0 of
        None \<Rightarrow> if 3 > length desc then Inl OutOfRange else Inr (drop 3 desc)
      | Some i \<Rightarrow>
          if \<not> i + 4 < 2 ^ 31 then Inl Undefined
          else if i + 4 > length desc then Inl OutOfRange
          else Inr (drop (i + 4) desc))"

text \<open>
  Lines 38 to 63 of \<^verbatim>\<open>main\<close>: \<^verbatim>\<open>prev = 0\<close>, the file header, the first previous-tag size
  of 0, then the sequence-header tag and its back-pointer. The result is the output so far
  and \<^verbatim>\<open>prev\<close>.
\<close>

definition emit_sequence_header :: "u8 list \<Rightarrow> perr + (u8 list \<times> nat)" where
  "emit_sequence_header desc =
     (let prev = 0;
          out0 = write_flv_header @ write32 0
      in bindE (avc_config desc) (\<lambda>config.
           let th = \<lparr>th_type = TAG_TYPE_VIDEO, th_size = of_nat (length config) + 5,
                     th_timestamp = 0, th_stream_id = 0\<rparr>;
               out1 = out0 @ write_tag_header th @ write8 (0x10 OR VCODEC_AVC) @ write8 0x00 @
                      write24 0 @ config
           in Inr (write_back_pointer out1 prev)))"

text \<open>\<^verbatim>\<open>buf[p]\<close> with a \<^verbatim>\<open>uint32_t\<close> index.\<close>

definition byte_at :: "u8 list \<Rightarrow> u32 \<Rightarrow> u8 option" where
  "byte_at bs p = (if unat p < length bs then Some (bs ! unat p) else None)"

text \<open>
  The loop \<^verbatim>\<open>while (p+5 < buf.size())\<close> of lines 95 to 100, from the position \<open>p\<close> and the
  flag \<open>rap\<close>. \<^verbatim>\<open>p+5\<close> and \<^verbatim>\<open>p += sz + 4\<close> are \<^verbatim>\<open>uint32_t\<close> arithmetic, so a length of
  \<^verbatim>\<open>0xfffffffc\<close> leaves \<open>p\<close> where it is: the loop need not end, and the first argument
  is fuel.
\<close>

fun idr_scan :: "nat \<Rightarrow> u8 list \<Rightarrow> u32 \<Rightarrow> bool \<Rightarrow> perr + bool" where
  "idr_scan 0 bs p rap = (if unat (p + 5) < length bs then Inl OutOfFuel else Inr rap)"
| "idr_scan (Suc fuel) bs p rap =
     (if unat (p + 5) < length bs then
        (case byte_at bs p of None \<Rightarrow> Inl Undefined | Some b0 \<Rightarrow>
        (case byte_at bs (p + 1) of None \<Rightarrow> Inl Undefined | Some b1 \<Rightarrow>
        (case byte_at bs (p + 2) of None \<Rightarrow> Inl Undefined | Some b2 \<Rightarrow>
        (case byte_at bs (p + 3) of None \<Rightarrow> Inl Undefined | Some b3 \<Rightarrow>
        (case byte_at bs (p + 4) of None \<Rightarrow> Inl Undefined | Some b4 \<Rightarrow>
           let sz = be32 b0 b1 b2 b3;
               rap' = (if b4 AND 0x1f = 5 then True else rap)
           in idr_scan fuel bs (p + (sz + 4)) rap')))))
      else Inr rap)"

text \<open>
  The leaves that \<^verbatim>\<open>main\<close> locates in the first track. \<^verbatim>\<open>ctts\<close> may be absent; the others
  are dereferenced without a check.
\<close>

record track =
  t_tkhd :: fullbufbox
  t_mdhd :: fullbufbox
  t_stsc :: fullbufbox
  t_stsd :: fullbufbox
  t_stsz :: fullbufbox
  t_stco :: fullbufbox
  t_stts :: fullbufbox
  t_ctts :: "fullbufbox option"

text \<open>The variables of \<^verbatim>\<open>main\<close> that the sample loop updates.\<close>

record remux_state =
  lastChunk :: u32
  offset :: u32
  vbuf :: "u8 list"
  ifs :: istream
  outp :: "u8 list"
  prev :: nat

text \<open>
  Lines 71 to 90: the chunk of sample \<open>i\<close>, the in-chunk offset, the composition offset,
  and the read of \<^verbatim>\<open>stsz->size(i)\<close> bytes at \<^verbatim>\<open>stco->offset(chunk) + offset\<close> into the
  vector, which keeps its old contents where the read falls short. The result is the
  composition offset and the state. \<open>vector_resize\<close> is \<^verbatim>\<open>buf.resize(n)\<close>: the first \<open>n\<close>
  elements stay, new ones are zero.
\<close>

definition vector_resize :: "nat \<Rightarrow> u8 list \<Rightarrow> u8 list" where
  "vector_resize n old = take n old @ replicate (n - length old) 0"

definition read_sample :: "track \<Rightarrow> nat \<Rightarrow> remux_state \<Rightarrow> perr + (u32 \<times> remux_state)" where
  "read_sample tr i st =
     bindE (ub (sampleToChunk (t_stsc tr) (of_nat i))) (\<lambda>chunk.
       let st1 = (if lastChunk st \<noteq> chunk then st\<lparr>lastChunk := chunk, offset := 0\<rparr> else st) in
       bindE (ub (stsz_size (t_stsz tr) i)) (\<lambda>sz.
       bindE (ub (stco_offset (t_stco tr) (unat chunk))) (\<lambda>co.
       bindE (ub (case t_ctts tr of None \<Rightarrow> Some 0 | Some c \<Rightarrow> sampleToOffset c (of_nat i)))
         (\<lambda>timeOffset.
           let n = unat sz;
               resized = vector_resize n (vbuf st1);
               (got, s2) = is_read n (seekg (unat (co + offset st1)) (ifs st1))
           in Inr (timeOffset,
                   st1\<lparr>vbuf := got @ drop (length got) resized, ifs := s2,
                        offset := offset st1 + sz\<rparr>)))))"

text \<open>
  Lines 104 to 115: the tag of one sample and its back-pointer. The timestamp is computed
  in \<^verbatim>\<open>uint64_t\<close> and stored in a \<^verbatim>\<open>uint32_t\<close>; the composition offset is computed in
  \<^verbatim>\<open>uint32_t\<close>.
\<close>

definition write_sample_tag ::
  "track \<Rightarrow> nat \<Rightarrow> bool \<Rightarrow> u32 \<Rightarrow> remux_state \<Rightarrow> perr + remux_state" where
  "write_sample_tag tr i rap timeOffset st =
     bindE (ub (sampleToTime (t_stts tr) (of_nat i))) (\<lambda>t.
     bindE (ub (mdhd_timeScale (t_mdhd tr))) (\<lambda>ts.
       if ts = 0 then Inl Undefined
       else
         let th = \<lparr>th_type = TAG_TYPE_VIDEO, th_size = of_nat (length (vbuf st)) + 2 + 3,
                   th_timestamp = ucast ((t * 1000) div ucast ts), th_stream_id = 0\<rparr>;
             out1 = outp st @ write_tag_header th @
                    write8 ((if rap then 0x10 else 0x20) OR VCODEC_AVC) @ write8 0x01 @
                    write24 ((timeOffset * 1000) div ts) @ vbuf st;
             (out2, prev') = write_back_pointer out1 (prev st)
         in Inr (st\<lparr>outp := out2, prev := prev'\<rparr>)))"

text \<open>The body of the sample loop.\<close>

definition sample_step :: "nat \<Rightarrow> track \<Rightarrow> nat \<Rightarrow> remux_state \<Rightarrow> perr + remux_state" where
  "sample_step fuel tr i st =
     bindE (read_sample tr i st) (\<lambda>(timeOffset, st1).
     bindE (idr_scan fuel (vbuf st1) 0 False) (\<lambda>rap.
       write_sample_tag tr i rap timeOffset st1))"

text \<open>
  \<^verbatim>\<open>for (int i=0; i<stsz->count(); i++)\<close>, with \<open>n\<close> the count. The counter is an \<^verbatim>\<open>int\<close>.
\<close>

function sample_loop :: "nat \<Rightarrow> track \<Rightarrow> nat \<Rightarrow> nat \<Rightarrow> remux_state \<Rightarrow> perr + remux_state" where
  "sample_loop fuel tr n i st =
     (if i < n then
        (if \<not> i < 2 ^ 31 then Inl Undefined
         else (case sample_step fuel tr i st of
                 Inl e \<Rightarrow> Inl e
               | Inr st' \<Rightarrow> sample_loop fuel tr n (Suc i) st'))
      else Inr st)"
  by pat_completeness auto
termination
  by (relation "measure (\<lambda>(fuel, tr, n, i, st). n - i)") auto

text \<open>
  \<^verbatim>\<open>main\<close> from the located leaves and the input stream as the decoder left it, to the
  bytes of \<^verbatim>\<open>out.flv\<close>. The diagnostics printed on the way are left out, but not what they
  read: the width, the duration divided by the time scale, the sample count, the codec
  tag and the description.
\<close>

definition remux :: "nat \<Rightarrow> track \<Rightarrow> istream \<Rightarrow> perr + u8 list" where
  "remux fuel tr s =
     bindE (ub (tkhd_width (t_tkhd tr))) (\<lambda>w.
     bindE (ub (mdhd_duration (t_mdhd tr))) (\<lambda>d.
     bindE (ub (mdhd_timeScale (t_mdhd tr))) (\<lambda>ts.
       if ts = 0 then Inl Undefined
       else
         bindE (ub (stsz_count (t_stsz tr))) (\<lambda>n.
         bindE (ub (stsd_typeAsString (t_stsd tr))) (\<lambda>ty.
         bindE (ub (stsd_desc (t_stsd tr))) (\<lambda>desc.
         bindE (emit_sequence_header desc) (\<lambda>(out, prev).
         bindE (sample_loop fuel tr (unat n) 0
                  \<lparr>lastChunk = - 1, offset = 0, vbuf = [],
                   ifs = s\<lparr>failbit := False, eofbit := False\<rparr>, outp = out, prev = prev\<rparr>)
           (\<lambda>st. Inr (outp st)))))))))"


section \<open>What the specification says, in its own words\<close>

text \<open>
  Run-length semantics of the chunk-run table: run \<open>i\<close> spans
  \<open>firstChunk (i+1) - firstChunk i\<close> chunks of \<open>samplesPerChunk i\<close> samples each, and the
  last run is open-ended. \<open>chunk_of_sample rs n\<close> is the 0-based index of the chunk that
  holds the sample \<open>n\<close> places after the first sample of the first run of \<open>rs\<close>.
\<close>

fun chunk_of_sample :: "(nat \<times> nat) list \<Rightarrow> nat \<Rightarrow> nat" where
  "chunk_of_sample [] n = 0"
| "chunk_of_sample [(f, spc)] n = f - 1 + n div spc"
| "chunk_of_sample ((f, spc) # (f', spc') # rs) n =
     (if n < (f' - f) * spc then f - 1 + n div spc
      else chunk_of_sample ((f', spc') # rs) (n - (f' - f) * spc))"

text \<open>The sample index at which each run after the first begins, counted from \<open>acc\<close>.\<close>

fun run_starts :: "(nat \<times> nat) list \<Rightarrow> nat \<Rightarrow> nat list" where
  "run_starts ((f, spc) # (f', spc') # rs) acc =
     (acc + (f' - f) * spc) # run_starts ((f', spc') # rs) (acc + (f' - f) * spc)"
| "run_starts rs acc = []"

text \<open>
  The same semantics chunk by chunk: the number of samples in the chunk with 0-based
  index \<open>k\<close>, which is the samples-per-chunk value of the last run that begins at or
  before chunk \<open>k + 1\<close>, and the index of the first sample of that chunk. Sample \<open>n\<close> is in
  chunk \<open>k\<close> when it is at or after the first sample of chunk \<open>k\<close> and before the first
  sample of chunk \<open>k + 1\<close>.
\<close>

fun samples_in_chunk :: "(nat \<times> nat) list \<Rightarrow> nat \<Rightarrow> nat" where
  "samples_in_chunk [] k = 0"
| "samples_in_chunk [(f, spc)] k = spc"
| "samples_in_chunk ((f, spc) # (f', spc') # rs) k =
     (if Suc k < f' then spc else samples_in_chunk ((f', spc') # rs) k)"

definition first_sample_of_chunk :: "(nat \<times> nat) list \<Rightarrow> nat \<Rightarrow> nat" where
  "first_sample_of_chunk rs k = (\<Sum>j<k. samples_in_chunk rs j)"

text \<open>
  The decode time of sample \<open>n\<close>: \<open>count * delta\<close> for every run fully before it, then
  \<open>delta\<close> for each sample of its own run before it.
\<close>

fun time_of_sample :: "(nat \<times> nat) list \<Rightarrow> nat \<Rightarrow> nat" where
  "time_of_sample [] n = 0"
| "time_of_sample ((c, d) # rs) n =
     (if n < c then n * d else c * d + time_of_sample rs (n - c))"

definition total_duration :: "(nat \<times> nat) list \<Rightarrow> nat" where
  "total_duration rs = sum_list (map (\<lambda>(c, d). c * d) rs)"

definition total_samples :: "(nat \<times> nat) list \<Rightarrow> nat" where
  "total_samples rs = sum_list (map fst rs)"

text \<open>
  The keyframe classifier of the specification: a unit is read whenever 5 or more bytes
  remain at the cursor, its type is the low five bits of the byte after the length, the
  cursor advances by the length plus 4, and the sample is a sync sample when some unit
  read has type 5.
\<close>

function spec_sync :: "u8 list \<Rightarrow> nat \<Rightarrow> bool" where
  "spec_sync bs p =
     (if p + 5 \<le> length bs then
        (bs ! (p + 4)) AND 0x1f = 5 \<or>
        spec_sync bs (p + unat (be32 (bs ! p) (bs ! (p + 1)) (bs ! (p + 2)) (bs ! (p + 3))) + 4)
      else False)"
  by pat_completeness auto
termination
  by (relation "measure (\<lambda>(bs, p). length bs - p)") auto

text \<open>The 64-bit big-endian integer at a position: the high word shifted left by 32.\<close>

definition spec_be64 :: "fullbufbox \<Rightarrow> nat \<Rightarrow> u64 option" where
  "spec_be64 b pos = do {
     h \<leftarrow> ui32 b pos;
     l \<leftarrow> ui32 b (pos + 4);
     Some (push_bit 32 (ucast h :: u64) OR ucast l)
   }"

text \<open>
  A buffer holds the runs \<open>rs\<close> of a chunk-run table, respectively of a decode-time run
  table, when its count is their number and record \<open>i\<close> reads as the \<open>i\<close>-th of them.
\<close>

definition stsc_table :: "fullbufbox \<Rightarrow> (u32 \<times> u32) list \<Rightarrow> bool" where
  "stsc_table b rs \<longleftrightarrow>
     stsc_count b = Some (of_nat (length rs)) \<and> length rs < 2 ^ 32 \<and>
     list_all (\<lambda>i. stsc_first b i = Some (fst (rs ! i)) \<and> stsc_spc b i = Some (snd (rs ! i)))
       [0..<length rs]"

definition stts_table :: "fullbufbox \<Rightarrow> (u32 \<times> u32) list \<Rightarrow> bool" where
  "stts_table b rs \<longleftrightarrow>
     stts_count b = Some (of_nat (length rs)) \<and> length rs < 2 ^ 32 \<and>
     list_all (\<lambda>i. stts_count_at b (of_nat i) = Some (fst (rs ! i)) \<and>
                   stts_delta b (of_nat i) = Some (snd (rs ! i)))
       [0..<length rs]"

definition nat_runs :: "(u32 \<times> u32) list \<Rightarrow> (nat \<times> nat) list" where
  "nat_runs rs = map (\<lambda>(a, b). (unat a, unat b)) rs"

section \<open>Example inputs\<close>

text \<open>A stream in good state over the bytes \<open>bs\<close>, at position \<open>p\<close>.\<close>

definition stream_of :: "u8 list \<Rightarrow> nat \<Rightarrow> istream" where
  "stream_of bs p = \<lparr>data = bs, gpos = p, failbit = False, eofbit = False\<rparr>"


text \<open>Chunk runs \<open>{(1,4)}\<close>, chunk offsets \<open>{100,500}\<close>, constant sample size 10, 8 samples.\<close>

definition ex_stsc :: fullbufbox where
  "ex_stsc = \<lparr>fb_type = BOX_STSC, fb_size = 28, version = 0, flags = 0,
     buf = [0,0,0,1, 0,0,0,1, 0,0,0,4, 0,0,0,1]\<rparr>"

definition ex_stco :: fullbufbox where
  "ex_stco = \<lparr>fb_type = BOX_STCO, fb_size = 24, version = 0, flags = 0,
     buf = [0,0,0,2, 0,0,0,100, 0,0,1,244]\<rparr>"

definition ex_stsz_uniform :: fullbufbox where
  "ex_stsz_uniform = \<lparr>fb_type = BOX_STSZ, fb_size = 20, version = 0, flags = 0,
     buf = [0,0,0,10, 0,0,0,8]\<rparr>"

text \<open>Decode-time runs \<open>{(3,1000),(2,500)}\<close>.\<close>

definition ex_stts :: fullbufbox where
  "ex_stts = \<lparr>fb_type = BOX_STTS, fb_size = 32, version = 0, flags = 0,
     buf = [0,0,0,2, 0,0,0,3, 0,0,3,232, 0,0,0,2, 0,0,1,244]\<rparr>"

text \<open>
  One decode-time run of 20000 samples of 333333 ticks each: a frame every thirtieth of a
  second on a 10 MHz time scale.
\<close>

definition ex_stts_long :: fullbufbox where
  "ex_stts_long = \<lparr>fb_type = BOX_STTS, fb_size = 24, version = 0, flags = 0,
     buf = [0,0,0,1, 0,0,0x4E,0x20, 0,5,0x16,0x15]\<rparr>"

text \<open>
  Chunk runs \<open>{(1,65536),(65537,1)}\<close>: the second run begins at sample \<open>2^32\<close>. Chunk runs
  \<open>{(1,0),(2,1)}\<close>: the first chunk is empty.
\<close>

definition ex_stsc_wide :: fullbufbox where
  "ex_stsc_wide = \<lparr>fb_type = BOX_STSC, fb_size = 40, version = 0, flags = 0,
     buf = [0,0,0,2, 0,0,0,1, 0,1,0,0, 0,0,0,1, 0,1,0,1, 0,0,0,1, 0,0,0,1]\<rparr>"

definition ex_stsc_empty_chunk :: fullbufbox where
  "ex_stsc_empty_chunk = \<lparr>fb_type = BOX_STSC, fb_size = 40, version = 0, flags = 0,
     buf = [0,0,0,2, 0,0,0,1, 0,0,0,0, 0,0,0,1, 0,0,0,2, 0,0,0,1, 0,0,0,1]\<rparr>"

text \<open>
  A version 1 media header: creation and modification time 0, time scale 1000, and the
  duration \<^verbatim>\<open>00 00 00 01 00 00 00 02\<close>.
\<close>

definition ex_mdhd_v1 :: fullbufbox where
  "ex_mdhd_v1 = \<lparr>fb_type = BOX_MDHD, fb_size = 44, version = 1, flags = 0,
     buf = [0,0,0,0,0,0,0,0, 0,0,0,0,0,0,0,0, 0,0,3,232, 0,0,0,1,0,0,0,2, 0x55,0xC4, 0,0]\<rparr>"

text \<open>
  A movie container of 36 bytes: a movie header of declared size 20 and version 1, whose
  last eight bytes happen to read as the header of an empty \<^verbatim>\<open>free\<close> box, and then a
  \<^verbatim>\<open>free\<close> box of size 8.
\<close>

definition ex_moov :: "u8 list" where
  "ex_moov =
     [0,0,0,36, 0x6D,0x6F,0x6F,0x76,
      0,0,0,20, 0x6D,0x76,0x68,0x64, 1,0,0,0, 0,0,0,8, 0x66,0x72,0x65,0x65,
      0,0,0,8, 0x66,0x72,0x65,0x65]"

text \<open>
  A movie container of 128 bytes that holds a movie header of version 1 as the format
  lays it out, 120 bytes: 64-bit creation time, modification time and duration, time scale
  1000, rate, volume, matrix and next track id.
\<close>

definition ex_moov_v1 :: "u8 list" where
  "ex_moov_v1 =
     [0,0,0,128, 0x6D,0x6F,0x6F,0x76,
      0,0,0,120, 0x6D,0x76,0x68,0x64, 1,0,0,0,
      0,0,0,0,0xE0,0,0,0,  0,0,0,0,0xE0,0,0,0,  0,0,3,232,  0,0,0,0,0,0,0x13,0x88,
      0,1,0,0,  1,0,  0,0,  0,0,0,0,0,0,0,0,
      0,1,0,0, 0,0,0,0, 0,0,0,0,  0,0,0,0, 0,1,0,0, 0,0,0,0,  0,0,0,0, 0,0,0,0, 0x40,0,0,0,
      0,0,0,0, 0,0,0,0, 0,0,0,0, 0,0,0,0, 0,0,0,0, 0,0,0,0,
      0,0,0,2]"

text \<open>A file-type box of declared size 18: two bytes follow the minor version.\<close>

definition ex_ftyp18 :: "u8 list" where
  "ex_ftyp18 =
     [0,0,0,18, 0x66,0x74,0x79,0x70, 0x69,0x73,0x6F,0x6D, 0,0,2,0, 0xAA,0xBB]"

text \<open>Chunk runs \<open>{(1,4),(3,2),(5,1)}\<close>.\<close>

definition ex_stsc_three :: fullbufbox where
  "ex_stsc_three = \<lparr>fb_type = BOX_STSC, fb_size = 52, version = 0, flags = 0,
     buf = [0,0,0,3, 0,0,0,1, 0,0,0,4, 0,0,0,1, 0,0,0,3, 0,0,0,2, 0,0,0,1,
            0,0,0,5, 0,0,0,1, 0,0,0,1]\<rparr>"

text \<open>
  A file-type box of declared size 20, and an unknown box of declared size 12 in a file
  that ends after 10 bytes.
\<close>

definition ex_ftyp20 :: "u8 list" where
  "ex_ftyp20 =
     [0,0,0,20, 0x66,0x74,0x79,0x70, 0x69,0x73,0x6F,0x6D, 0,0,2,0, 0x6D,0x70,0x34,0x31]"

definition ex_truncated :: "u8 list" where
  "ex_truncated = [0,0,0,12, 0x61,0x62,0x63,0x64, 1, 2]"


section \<open>Auxiliary definitions for the proofs\<close>

text \<open>
  The loop of \<^verbatim>\<open>sampleToChunk\<close> once more, over the list of the runs still to be visited
  instead of an index into the buffer.
\<close>

fun chunk_runs_loop :: "(u32 \<times> u32) list \<Rightarrow> u32 \<Rightarrow> u32 \<Rightarrow> u32 \<Rightarrow> u32 \<Rightarrow> u32 \<Rightarrow> u32 option" where
  "chunk_runs_loop [] n ofs ch lch lspc = Some (ch - 1)"
| "chunk_runs_loop ((f, s) # rs) n ofs ch lch lspc =
     (let ofs' = ofs + (f - lch) * lspc in
      if n < ofs' then Some (ch - 1)
      else if s = 0 then None
      else chunk_runs_loop rs n ofs' (f + (n - ofs') div s) f s)"

text \<open>
  The loop of \<^verbatim>\<open>sampleToTime\<close> over the list of the runs still to be visited.
\<close>

fun time_runs_loop :: "(u32 \<times> u32) list \<Rightarrow> u32 \<Rightarrow> u64 \<Rightarrow> u64" where
  "time_runs_loop [] n t = t"
| "time_runs_loop ((c, d) # rs) n t =
     (if n < c then t + ucast (n * d) else time_runs_loop rs (n - c) (t + ucast (c * d)))"

text \<open>
  The nodes that keep what their decoder read: a file-type box, a \<^verbatim>\<open>free\<close> box, a full box
  with its raw payload, an opaque-preserved unknown box, and a movie header whose fields
  were assigned.
\<close>

definition retains_payload :: "box \<Rightarrow> bool" where
  "retains_payload b =
     (case b of
        BoxFTYP sz major minor brands \<Rightarrow> True
      | BoxFREE sz body \<Rightarrow> True
      | BoxMVHD sz v fl fs trailing \<Rightarrow> fs \<noteq> None
      | FullBufBox fb \<Rightarrow> True
      | UnknownBox ty sz body \<Rightarrow> True
      | _ \<Rightarrow> False)"

section \<open>Evaluation rules\<close>

lemmas box_type_defs =
  BOX_MDAT_def BOX_FTYP_def BOX_FREE_def BOX_MOOV_def BOX_MVHD_def BOX_MDIA_def BOX_MDHD_def
  BOX_MINF_def BOX_HDLR_def BOX_STCO_def BOX_STSC_def BOX_STSD_def BOX_STTS_def BOX_STSZ_def
  BOX_STSS_def BOX_STBL_def BOX_CTTS_def BOX_TRAK_def BOX_TKHD_def BOX_DTS_def BOX_UDTA_def

lemmas stream_defs =
  Let_def is_read_def read32_def read24_def read8_def be32_def be24_def need_def bindE_def
  tellg_def seekg_def size_add_def size_sub_def resize_ok_def stream_of_def

lemmas table_defs =
  ui32_def be32_def stsc_count_def stsc_first_def stsc_spc_def stts_count_def
  stts_count_at_def stts_delta_def

section \<open>The decoder and its cursor\<close>

text \<open>
  C2. The claim: after the decoder finishes any child box inside a container, the cursor
  is at that child's start plus its declared size before the next sibling's header is
  read, however many bytes the child's own decoder consumed, for instance for a movie
  header whose version is not 0.

  The loop of \<^verbatim>\<open>BoxSimpleList::parse\<close> does not seek after a child, and \<^verbatim>\<open>BoxMVHD::parse\<close>
  returns after four bytes when the version is not 0. In \<open>ex_moov_v1\<close> the movie header
  starts at offset 8 with declared size 120, so the claim puts the cursor at 128 once it
  is decoded; the decoder leaves it at 20. The container then reads the creation time as
  the header of a box of size 0, and the decoder ends in the \<^verbatim>\<open>std::length_error\<close> of
  \<^verbatim>\<open>resize(0 - 8)\<close>.
\<close>

theorem mvhd_cursor_not_repositioned:
  "createBox fuel BOX_MVHD 120 (stream_of ex_moov_v1 16) =
     Inr (BoxMVHD 120 1 0 None [], stream_of ex_moov_v1 20) \<and>
   simplelist_parse (Suc (Suc (Suc fuel))) BOX_MOOV 128 (stream_of ex_moov_v1 8) =
     Inl LengthError"
  by (simp add: chktype_def has_child_def box_type_defs mvhd_parse_def unknown_parse_def
      stream_defs ex_moov_v1_def)

text \<open>
  Where the bytes after the version and flags read as a box header the decoder goes on:
  in \<open>ex_moov\<close> the container gets three children where the file has two.
\<close>

lemma mvhd_payload_read_as_sibling:
  "createBox fuel BOX_MVHD 20 (stream_of ex_moov 16) =
     Inr (BoxMVHD 20 1 0 None [], stream_of ex_moov 20) \<and>
   simplelist_parse (Suc (Suc (Suc (Suc (Suc fuel))))) BOX_MOOV 36 (stream_of ex_moov 8) =
     Inr (BoxSimpleList BOX_MOOV 36 [BoxMVHD 20 1 0 None [], BoxFREE 8 [], BoxFREE 8 []],
          stream_of ex_moov 36)"
  by (simp add: chktype_def has_child_def box_type_defs mvhd_parse_def free_parse_def
      stream_defs ex_moov_def)

section \<open>Decode times\<close>

text \<open>The examples of the specification: runs \<open>{(3,1000),(2,500)}\<close>.\<close>

lemma sampleToTime_examples:
  "sampleToTime ex_stts 0 = Some 0" "sampleToTime ex_stts 2 = Some 2000"
  "sampleToTime ex_stts 3 = Some 3000" "sampleToTime ex_stts 4 = Some 3500"
  by (simp_all add: sampleToTime_def ex_stts_def table_defs)

text \<open>
  C3. The claim: for every decode-time run table and every sample index below the total
  sample count, \<^verbatim>\<open>sampleToTime(n)\<close> is the sum of \<open>count * delta\<close> over the runs fully
  before \<open>n\<close> plus \<open>(n - samplesConsumed) * delta\<close> of the run that holds \<open>n\<close>.

  The result and the accumulator are 64 bits wide, but \<^verbatim>\<open>n * delta(i)\<close> is a product of two
  \<^verbatim>\<open>uint32_t\<close> and wraps at \<open>2^32\<close> before it is widened. With one run of 20000 samples of
  333333 ticks, sample 12885 has decode time 4294995705; the function returns 28409.
\<close>

theorem sampleToTime_product_wraps:
  "stts_table ex_stts_long [(20000, 333333)] \<and>
   sampleToTime ex_stts_long 12885 = Some 28409 \<and>
   time_of_sample (nat_runs [(20000, 333333)]) 12885 = 4294995705"
  by (simp add: sampleToTime_def stts_table_def nat_runs_def ex_stts_long_def table_defs)

text \<open>
  C10. The claim: for every decode-time run table and every index at or beyond the sum of
  the run counts, \<^verbatim>\<open>sampleToTime(n)\<close> is defined and is the sum of \<open>count * delta\<close> over all
  runs, the total decode duration.

  The function does return, but \<^verbatim>\<open>count(i) * delta(i)\<close> is the 32-bit product again. With
  one run of 20000 samples of 333333 ticks the total is 6666660000; at index 20000 the
  function returns 2371692704.
\<close>

theorem sampleToTime_total_wraps:
  "total_samples (nat_runs [(20000, 333333)]) = 20000 \<and>
   sampleToTime ex_stts_long 20000 = Some 2371692704 \<and>
   total_duration (nat_runs [(20000, 333333)]) = 6666660000"
  by (simp add: sampleToTime_def total_samples_def total_duration_def nat_runs_def
      ex_stts_long_def table_defs)

text \<open>What the function does compute, for every table whose declared runs are in the buffer.\<close>

lemma stts_table_nth:
  assumes "stts_table b rs" "i < length rs"
  shows "stts_count_at b (of_nat i) = Some (fst (rs ! i))"
    "stts_delta b (of_nat i) = Some (snd (rs ! i))"
  using assms by (auto simp: stts_table_def list_all_iff)

lemma sampleToTime_loop_runs:
  assumes "stts_table b rs" "i \<le> length rs"
  shows "sampleToTime_loop b (length rs) i n t = Some (time_runs_loop (drop i rs) n t)"
  using assms(2)
proof (induction "length rs - i" arbitrary: i n t)
  case 0
  then show ?case by simp
next
  case (Suc k)
  then have lt: "i < length rs" by simp
  obtain c d where cd: "rs ! i = (c, d)" by (cases "rs ! i")
  have dr: "drop i rs = (c, d) # drop (Suc i) rs"
    using lt cd by (simp add: Cons_nth_drop_Suc [symmetric])
  have rd: "stts_count_at b (of_nat i) = Some c" "stts_delta b (of_nat i) = Some d"
    using stts_table_nth [OF assms(1) lt] cd by simp_all
  have ih: "\<And>n t. sampleToTime_loop b (length rs) (Suc i) n t =
        Some (time_runs_loop (drop (Suc i) rs) n t)"
    using Suc.hyps(1) [of "Suc i"] Suc.hyps(2) lt by simp
  show ?case
    by (subst sampleToTime_loop.simps)
      (simp add: lt rd dr ih del: sampleToTime_loop.simps of_nat_Suc)
qed

lemma sampleToTime_runs:
  assumes "stts_table b rs"
  shows "sampleToTime b n = Some (time_runs_loop rs n 0)"
proof -
  have c: "stts_count b = Some (of_nat (length rs))" "length rs < 2 ^ 32"
    using assms by (simp_all add: stts_table_def)
  have len: "unat (of_nat (length rs) :: u32) = length rs"
    using c(2) by (simp add: unat_of_nat)
  show ?thesis
    using sampleToTime_loop_runs [OF assms, of 0 n 0] by (simp add: sampleToTime_def c(1) len)
qed

text \<open>Beyond the last sample the loop adds up the 32-bit products of all runs.\<close>

lemma time_runs_loop_beyond:
  assumes "total_samples (nat_runs rs) \<le> unat n"
  shows "time_runs_loop rs n t = t + sum_list (map (\<lambda>(c, d). ucast (c * d)) rs)"
  using assms
proof (induction rs arbitrary: n t)
  case Nil
  then show ?case by simp
next
  case (Cons r rs)
  obtain c d where r: "r = (c, d)" by (cases r)
  have le: "c \<le> n" using Cons.prems r by (simp add: total_samples_def nat_runs_def word_le_nat_alt)
  then have "total_samples (nat_runs rs) \<le> unat (n - c)"
    using Cons.prems r by (simp add: total_samples_def nat_runs_def unat_sub)
  then have "time_runs_loop rs (n - c) (t + ucast (c * d)) =
      t + ucast (c * d) + sum_list (map (\<lambda>(c, d). ucast (c * d)) rs)"
    by (rule Cons.IH)
  moreover have "\<not> n < c" using le by simp
  ultimately show ?case using r by (simp add: add.assoc)
qed

lemma ucast_mult_fits:
  fixes x y :: u32
  assumes "unat x * unat y < 2 ^ 32"
  shows "(ucast (x * y) :: u64) = of_nat (unat x * unat y)"
proof -
  have "unat (x * y) = unat x * unat y"
    using assms by (simp add: unat_mult_lem [THEN iffD1])
  moreover have "(ucast (x * y) :: u64) = of_nat (unat (x * y))" by simp
  ultimately show ?thesis by simp
qed

lemma time_runs_loop_fits:
  assumes "list_all (\<lambda>(c, d). unat c * unat d < 2 ^ 32) rs"
  shows "time_runs_loop rs n t = t + of_nat (time_of_sample (nat_runs rs) (unat n))"
  using assms
proof (induction rs arbitrary: n t)
  case Nil
  then show ?case by (simp add: nat_runs_def)
next
  case (Cons r rs)
  obtain c d where r: "r = (c, d)" by (cases r)
  have cd: "unat c * unat d < 2 ^ 32" using Cons.prems r by simp
  show ?case
  proof (cases "n < c")
    case True
    then have "unat n \<le> unat c"
      by (simp add: word_less_nat_alt)
    then have "unat n * unat d \<le> unat c * unat d"
      by (rule mult_right_mono) simp
    then have "unat n * unat d < 2 ^ 32" using cd by (rule le_less_trans)
    then show ?thesis
      using True r by (simp add: nat_runs_def word_less_nat_alt ucast_mult_fits)
  next
    case False
    then have le: "c \<le> n" by simp
    have "time_runs_loop rs (n - c) (t + ucast (c * d)) =
        t + ucast (c * d) + of_nat (time_of_sample (nat_runs rs) (unat (n - c)))"
      using Cons.prems r by (intro Cons.IH) simp
    then show ?thesis
      using False r le cd
      by (simp add: nat_runs_def word_less_nat_alt unat_sub ucast_mult_fits add.assoc)
  qed
qed

lemma time_of_sample_bound:
  assumes "list_all (\<lambda>(c, d). c * d < 2 ^ 32) rs"
  shows "time_of_sample rs n \<le> length rs * 2 ^ 32"
  using assms
proof (induction rs arbitrary: n)
  case Nil
  then show ?case by simp
next
  case (Cons r rs)
  obtain c d where r: "r = (c, d)" by (cases r)
  have cd: "c * d < 2 ^ 32" using Cons.prems r by simp
  have ih: "time_of_sample rs (n - c) \<le> length rs * 2 ^ 32"
    using Cons.prems by (intro Cons.IH) simp
  show ?case
  proof (cases "n < c")
    case True
    then have "n \<le> c" by simp
    then have "n * d \<le> c * d" by (rule mult_right_mono) simp
    then have "n * d < 2 ^ 32" using cd by (rule le_less_trans)
    then have "n * d \<le> 2 ^ 32 + length rs * 2 ^ 32" by (rule_tac order.trans [of _ "2 ^ 32"]) auto
    then show ?thesis using True r by simp
  next
    case False
    then show ?thesis using r cd ih by simp
  qed
qed

text \<open>
  Where no product \<open>count * delta\<close> reaches \<open>2^32\<close>, \<^verbatim>\<open>sampleToTime\<close> is the decode time of
  the specification, for every index.
\<close>

lemma sampleToTime_fits:
  assumes "stts_table b rs" "list_all (\<lambda>(c, d). unat c * unat d < 2 ^ 32) rs"
  shows "map_option unat (sampleToTime b n) = Some (time_of_sample (nat_runs rs) (unat n))"
proof -
  have eq: "sampleToTime b n = Some (of_nat (time_of_sample (nat_runs rs) (unat n)))"
    using sampleToTime_runs [OF assms(1)] time_runs_loop_fits [OF assms(2), of n 0] by simp
  have "list_all (\<lambda>(c, d). c * d < 2 ^ 32) (nat_runs rs)"
    using assms(2) by (simp add: nat_runs_def list_all_iff case_prod_unfold)
  then have "time_of_sample (nat_runs rs) (unat n) \<le> length (nat_runs rs) * 2 ^ 32"
    by (rule time_of_sample_bound)
  moreover have "length (nat_runs rs) < 2 ^ 32"
    using assms(1) by (simp add: stts_table_def nat_runs_def)
  then have "length (nat_runs rs) * 2 ^ 32 < 2 ^ 32 * (2 ^ 32 :: nat)"
    by (rule mult_strict_right_mono) simp
  moreover have "(2 :: nat) ^ 32 * 2 ^ 32 = 2 ^ 64"
    by (simp only: power_add [symmetric]) simp
  ultimately have "time_of_sample (nat_runs rs) (unat n) < 2 ^ 64"
    by (simp only: le_less_trans)
  then show ?thesis
    using eq by (simp add: unat_of_nat)
qed

text \<open>
  At or beyond the total sample count \<^verbatim>\<open>sampleToTime\<close> returns, having read the entries of
  the declared runs only, and its result is the sum of the 32-bit products.
\<close>

lemma sampleToTime_beyond:
  assumes "stts_table b rs" "total_samples (nat_runs rs) \<le> unat n"
  shows "sampleToTime b n = Some (sum_list (map (\<lambda>(c, d). ucast (c * d)) rs))"
  using sampleToTime_runs [OF assms(1)] time_runs_loop_beyond [OF assms(2), of 0] by simp

section \<open>The keyframe scan\<close>

text \<open>
  C4. The claim: the scan reads a unit whenever 5 or more bytes remain at the cursor, and
  the sample is a sync sample if and only if some unit read has type 5.

  The loop test is \<^verbatim>\<open>p+5 < buf.size()\<close>, which needs 6 bytes. A sample that is one unit of
  length 1 and type 5, five bytes in all, is a sync sample by the claim; the loop body
  never runs on it and the flag stays false, whatever the fuel.
\<close>

theorem idr_scan_needs_six_bytes:
  "idr_scan fuel [0, 0, 0, 1, 0x65] 0 False = Inr False \<and> spec_sync [0, 0, 0, 1, 0x65] 0"
  by (cases fuel) simp_all

text \<open>With one more byte the same unit is found.\<close>

lemma idr_scan_six_bytes:
  "idr_scan (Suc fuel) [0, 0, 0, 1, 0x65, 0] 0 False = Inr True"
  by (cases fuel) (simp_all add: byte_at_def be32_def)

text \<open>
  The scan need not end: a unit length of \<^verbatim>\<open>0xfffffffc\<close> leaves the position where it is.
\<close>

lemma u32_wraps_to_zero: "(4294967296 :: u32) = 0"
  by (simp add: word_eq_iff_unsigned [where ?'a = nat] unat_of_nat) 

lemma idr_scan_may_not_stop:
  "idr_scan fuel [0xFF, 0xFF, 0xFF, 0xFC, 0x61, 0] 0 False = Inl OutOfFuel"
  by (induction fuel) (simp_all add: byte_at_def be32_def u32_wraps_to_zero)

section \<open>Back-pointers\<close>

text \<open>
  C5. The claim: for every tag the pipeline emits, the sequence-header tag included, the
  four bytes after the tag are the byte length of that tag, its 11-byte header plus its
  payload, and nothing more.

  \<^verbatim>\<open>prev\<close> is 0 when the sequence-header tag is written, not the 13 bytes of file header
  and first previous-tag size that precede the tag. For the description \<^verbatim>\<open>avcC\<close> followed
  by the bytes 1, 2, 3 the tag is 11 + 5 + 3 = 19 bytes long, and the trailer written
  after it is 32.
\<close>

theorem sequence_header_back_pointer:
  "emit_sequence_header [0x61, 0x76, 0x63, 0x43, 1, 2, 3] =
     Inr ([0x46, 0x4C, 0x56, 1, 5, 0, 0, 0, 9,  0, 0, 0, 0,
           9, 0, 0, 8, 0, 0, 0, 0, 0, 0, 0,  0x17, 0, 0, 0, 0,  1, 2, 3,
           0, 0, 0, 32], 36)"
  by (simp add: emit_sequence_header_def avc_config_def bindE_def write_back_pointer_def
      write_flv_header_def write_tag_header_def write8_def write24_def write32_def
      TAG_TYPE_VIDEO_def VCODEC_AVC_def)

text \<open>The same for every description: the trailer is the length of the tag plus 13.\<close>

lemma sequence_header_trailer_any:
  assumes "avc_config desc = Inr config"
  shows "\<exists>tag. length tag = 11 + 5 + length config \<and>
           emit_sequence_header desc =
             Inr (write_flv_header @ write32 0 @ tag @ write32 (of_nat (13 + length tag)),
                  13 + length tag + 4)"
proof -
  define th where "th = \<lparr>th_type = TAG_TYPE_VIDEO, th_size = of_nat (length config) + 5,
                     th_timestamp = 0, th_stream_id = 0\<rparr>"
  define tag where "tag = write_tag_header th @ write8 (0x10 OR VCODEC_AVC) @ write8 0x00 @
                      write24 0 @ config"
  have len: "length tag = 11 + 5 + length config"
    by (simp add: tag_def write_tag_header_def write8_def write24_def)
  have h: "length (write_flv_header @ write32 0) = 13"
    by (simp add: write_flv_header_def write8_def write32_def)
  have "emit_sequence_header desc =
      Inr (write_back_pointer ((write_flv_header @ write32 0) @ tag) 0)"
    using assms by (simp add: emit_sequence_header_def bindE_def Let_def tag_def th_def)
  also have "write_back_pointer ((write_flv_header @ write32 0) @ tag) 0 =
      (write_flv_header @ write32 0 @ tag @ write32 (of_nat (13 + length tag)),
       13 + length tag + 4)"
    using h by (simp add: write_back_pointer_def Let_def write32_def)
  finally show ?thesis using len by blast
qed

text \<open>
  The sample tags are written with \<^verbatim>\<open>prev\<close> at the end of the output, and their trailer is
  their own length.
\<close>

lemma write_back_pointer_own_length:
  "write_back_pointer (out0 @ tag) (length out0) =
     (out0 @ tag @ write32 (of_nat (length tag)), length (out0 @ tag @ write32 (of_nat (length tag))))"
  by (simp add: write_back_pointer_def Let_def)

lemma sample_tag_back_pointer:
  assumes "write_sample_tag tr i rap timeOffset st = Inr st'" "prev st = length (outp st)"
  shows "\<exists>tag. length tag = 11 + 5 + length (vbuf st) \<and>
           outp st' = outp st @ tag @ write32 (of_nat (length tag)) \<and>
           prev st' = length (outp st')"
proof -
  obtain t where t: "sampleToTime (t_stts tr) (of_nat i) = Some t"
    using assms(1)
    by (cases "sampleToTime (t_stts tr) (of_nat i)")
      (simp_all add: write_sample_tag_def ub_def bindE_def)
  obtain ts where ts: "mdhd_timeScale (t_mdhd tr) = Some ts"
    using assms(1) t
    by (cases "mdhd_timeScale (t_mdhd tr)") (simp_all add: write_sample_tag_def ub_def bindE_def)
  have nz: "ts \<noteq> 0"
    using assms(1) t ts by (auto simp add: write_sample_tag_def ub_def bindE_def)
  define th where "th = \<lparr>th_type = TAG_TYPE_VIDEO, th_size = of_nat (length (vbuf st)) + 2 + 3,
                   th_timestamp = ucast ((t * 1000) div ucast ts), th_stream_id = 0\<rparr>"
  define tag where "tag = write_tag_header th @
                    write8 ((if rap then 0x10 else 0x20) OR VCODEC_AVC) @ write8 0x01 @
                    write24 ((timeOffset * 1000) div ts) @ vbuf st"
  have len: "length tag = 11 + 5 + length (vbuf st)"
    by (simp add: tag_def write_tag_header_def write8_def write24_def)
  have "write_sample_tag tr i rap timeOffset st =
      Inr (st\<lparr>outp := fst (write_back_pointer (outp st @ tag) (prev st)),
              prev := snd (write_back_pointer (outp st @ tag) (prev st))\<rparr>)"
    using t ts nz
    by (simp add: write_sample_tag_def ub_def bindE_def Let_def tag_def th_def case_prod_unfold)
  then have "st' = st\<lparr>outp := outp st @ tag @ write32 (of_nat (length tag)),
                  prev := length (outp st @ tag @ write32 (of_nat (length tag)))\<rparr>"
    using assms unfolding assms(2) write_back_pointer_own_length by simp
  then show ?thesis
    using len by (intro exI [of _ tag]) simp
qed

section \<open>Sample sizes\<close>

text \<open>
  C6. The claim: the byte length the pipeline uses for sample \<open>n\<close> is the per-sample value
  of the sample-size table, and the table's constant size when the table is uniform.

  \<^verbatim>\<open>main\<close> calls \<^verbatim>\<open>stsz->size(i)\<close> and never \<^verbatim>\<open>constantSize()\<close>. A uniform table has no
  per-sample values: with constant size 10 and 8 samples its payload is eight bytes, and
  \<^verbatim>\<open>size(0)\<close> reads the four bytes after them. The read of the first sample is undefined
  where the claim has 10 bytes.
\<close>

theorem uniform_sample_size_not_used:
  "stsz_constantSize ex_stsz_uniform = Some 10 \<and>
   stsz_count ex_stsz_uniform = Some 8 \<and>
   stsz_size ex_stsz_uniform 0 = None \<and>
   read_sample (tr\<lparr>t_stsc := ex_stsc, t_stsz := ex_stsz_uniform, t_stco := ex_stco\<rparr>) 0 st =
     Inl Undefined"
  by (simp add: read_sample_def sampleToChunk_def ub_def bindE_def stsz_constantSize_def
      stsz_count_def stsz_size_def ex_stsz_uniform_def ex_stsc_def table_defs)

text \<open>
  Whenever a sample is read, the length of the buffer is what \<^verbatim>\<open>stsz->size(i)\<close> returned:
  for a per-sample table, the table's value.
\<close>

lemma vector_resize_length: "length (vector_resize n old) = n"
  by (simp add: vector_resize_def)

lemma read_sample_length:
  assumes "read_sample tr i st = Inr (timeOffset, st')"
  shows "\<exists>sz. stsz_size (t_stsz tr) i = Some sz \<and> length (vbuf st') = unat sz"
proof -
  obtain chunk where 1: "sampleToChunk (t_stsc tr) (of_nat i) = Some chunk"
    using assms
    by (cases "sampleToChunk (t_stsc tr) (of_nat i)")
      (simp_all add: read_sample_def ub_def bindE_def)
  obtain sz where 2: "stsz_size (t_stsz tr) i = Some sz"
    using assms 1
    by (cases "stsz_size (t_stsz tr) i") (simp_all add: read_sample_def ub_def bindE_def)
  obtain co where 3: "stco_offset (t_stco tr) (unat chunk) = Some co"
    using assms 1 2
    by (cases "stco_offset (t_stco tr) (unat chunk)")
      (simp_all add: read_sample_def ub_def bindE_def)
  obtain tof where
    4: "(case t_ctts tr of None \<Rightarrow> Some 0 | Some c \<Rightarrow> sampleToOffset c (of_nat i)) = Some tof"
    using assms 1 2 3
    by (cases "case t_ctts tr of None \<Rightarrow> Some 0 | Some c \<Rightarrow> sampleToOffset c (of_nat i)")
      (simp_all add: read_sample_def ub_def bindE_def)
  have le: "\<And>n s. length (fst (is_read n s)) \<le> n"
    by (auto simp add: is_read_def Let_def)
  have "length (vbuf st') = unat sz"
    using assms le [of "unat sz"]
    by (auto simp add: read_sample_def ub_def bindE_def 1 2 3 4 Let_def case_prod_unfold
        vector_resize_length split: if_splits)
  then show ?thesis using 2 by blast
qed

section \<open>Version 1 media headers\<close>

text \<open>
  C7. The claim: for a media header of version 1, \<^verbatim>\<open>duration()\<close> is the 64-bit big-endian
  integer of the payload, the high word shifted left by 32 bits or-ed with the low word.

  \<^verbatim>\<open>ui64\<close> or-s the two words without the shift. For the duration bytes
  \<^verbatim>\<open>00 00 00 01 00 00 00 02\<close> the value is 4294967298 and \<^verbatim>\<open>duration()\<close> returns 3.
\<close>

theorem mdhd_duration_v1_no_shift:
  "mdhd_duration ex_mdhd_v1 = Some 3 \<and> spec_be64 ex_mdhd_v1 (8 * 2 + 4) = Some 4294967298"
  by (simp add: mdhd_duration_def ex_mdhd_v1_def ui64_def spec_be64_def ui32_def be32_def)

section \<open>Writing boxes\<close>

text \<open>
  C9. The claim: \<^verbatim>\<open>write\<close> on an opaque-skipped node signals a distinct error to the caller
  and never completes silently with no data in the box's place.

  An unrecognised box of more than 10 MiB is decoded as an \<^verbatim>\<open>UnknownBoxRef\<close>, and
  \<^verbatim>\<open>UnknownBoxRef::write\<close> has an empty body: it completes, and appends nothing, not even
  the header.
\<close>

theorem unknownboxref_write_emits_nothing:
  "createBox fuel BOX_MDAT 10485761 s =
     Inr (UnknownBoxRef BOX_MDAT 10485761 (if failbit s then - 1 else int (gpos s)),
          seekg (size_sub (size_add (tellg s) 10485761) 8) s) \<and>
   box_write (UnknownBoxRef ty sz off) = Inr []"
  by (simp add: chktype_def has_child_def unknownref_parse_def box_type_defs)


section \<open>Chunk mapping\<close>

text \<open>
  The loop over the buffer is the loop over the runs it holds, and that loop follows the
  run-length semantics as long as the running sample count does not wrap and no
  samples-per-chunk value is zero.
\<close>

lemma stsc_table_nth:
  assumes "stsc_table b rs" "i < length rs"
  shows "stsc_first b i = Some (fst (rs ! i))" "stsc_spc b i = Some (snd (rs ! i))"
  using assms by (auto simp: stsc_table_def list_all_iff)

lemma sampleToChunk_loop_runs:
  assumes "stsc_table b rs" "i \<le> length rs"
  shows "sampleToChunk_loop b n (length rs) i ofs ch lch lspc =
         chunk_runs_loop (drop i rs) n ofs ch lch lspc"
  using assms(2)
proof (induction "length rs - i" arbitrary: i ofs ch lch lspc)
  case 0
  then show ?case by simp
next
  case (Suc k)
  then have lt: "i < length rs" by simp
  obtain f s where fs: "rs ! i = (f, s)" by (cases "rs ! i")
  have d: "drop i rs = (f, s) # drop (Suc i) rs"
    using lt fs by (simp add: Cons_nth_drop_Suc [symmetric])
  have rd: "stsc_first b i = Some f" "stsc_spc b i = Some s"
    using stsc_table_nth [OF assms(1) lt] fs by simp_all
  have ih: "\<And>ofs ch lch lspc. sampleToChunk_loop b n (length rs) (Suc i) ofs ch lch lspc =
        chunk_runs_loop (drop (Suc i) rs) n ofs ch lch lspc"
    using Suc.hyps(1) [of "Suc i"] Suc.hyps(2) lt by simp
  show ?case
    by (subst sampleToChunk_loop.simps)
      (simp add: lt rd d ih Let_def del: sampleToChunk_loop.simps)
qed

lemma word_chunk_index:
  fixes n ofs lch lspc :: u32
  assumes "ofs \<le> n" "1 \<le> unat lch"
  shows "lch + (n - ofs) div lspc - 1 =
         of_nat (unat lch - 1 + (unat n - unat ofs) div unat lspc)"
proof -
  have a: "(unat n - unat ofs) div unat lspc = unat ((n - ofs) div lspc)"
    using assms(1) by (simp add: unat_div unat_sub)
  have "(of_nat (unat lch - 1) :: u32) = of_nat (unat lch) - of_nat 1"
    using assms(2) by (rule of_nat_diff)
  then have b: "(of_nat (unat lch - 1) :: u32) = lch - 1"
    by simp
  have "(of_nat (unat lch - 1 + (unat n - unat ofs) div unat lspc) :: u32) =
        of_nat (unat lch - 1) + of_nat (unat ((n - ofs) div lspc))"
    by (simp only: a of_nat_add)
  also have "\<dots> = lch - 1 + (n - ofs) div lspc"
    by (simp only: b) simp
  finally show ?thesis by simp
qed

lemma chunk_runs_loop_correct:
  assumes "ofs \<le> n" "lspc \<noteq> 0" "ch = lch + (n - ofs) div lspc" "1 \<le> unat lch"
    and "sorted (unat lch # map (unat \<circ> fst) rs)"
    and "list_all (\<lambda>(f, s). s \<noteq> 0) rs"
    and "list_all (\<lambda>x. x < 2 ^ 32) (run_starts ((unat lch, unat lspc) # nat_runs rs) (unat ofs))"
  shows "chunk_runs_loop rs n ofs ch lch lspc =
         Some (of_nat (chunk_of_sample ((unat lch, unat lspc) # nat_runs rs) (unat n - unat ofs)))"
  using assms
proof (induction rs arbitrary: ofs ch lch lspc)
  case Nil
  then show ?case by (simp add: nat_runs_def word_chunk_index)
next
  case (Cons r rs)
  obtain f s where r: "r = (f, s)" by (cases r)
  let ?x = "unat ofs + (unat f - unat lch) * unat lspc"
  have le: "lch \<le> f" using Cons.prems(5) r by (simp add: word_le_nat_alt)
  have x: "?x < 2 ^ 32" using Cons.prems(7) r by (simp add: nat_runs_def)
  have m: "unat ((f - lch) * lspc) = (unat f - unat lch) * unat lspc"
  proof -
    have "unat (f - lch) * unat lspc < 2 ^ LENGTH(32)" using x le by (simp add: unat_sub)
    then show ?thesis using le by (simp add: unat_mult_lem [THEN iffD1] unat_sub)
  qed
  have ofs': "unat (ofs + (f - lch) * lspc) = ?x"
  proof -
    have "unat ofs + unat ((f - lch) * lspc) < 2 ^ LENGTH(32)" using x m by simp
    then show ?thesis using m by (simp add: unat_add_lem [THEN iffD1])
  qed
  show ?case
  proof (cases "n < ofs + (f - lch) * lspc")
    case True
    then have "unat n - unat ofs < (unat f - unat lch) * unat lspc"
      using ofs' Cons.prems(1) by (simp add: word_less_nat_alt word_le_nat_alt)
    then show ?thesis
      using True Cons.prems r by (simp add: nat_runs_def word_chunk_index)
  next
    case False
    then have ge: "ofs + (f - lch) * lspc \<le> n" by simp
    then have nge: "\<not> unat n - unat ofs < (unat f - unat lch) * unat lspc"
      using ofs' by (simp add: word_le_nat_alt)
    have s0: "s \<noteq> 0" using Cons.prems(6) r by simp
    have f1: "1 \<le> unat f" using Cons.prems(4) le by (simp add: word_le_nat_alt)
    have ih: "chunk_runs_loop rs n (ofs + (f - lch) * lspc) (f + (n - (ofs + (f - lch) * lspc)) div s) f s =
      Some (of_nat (chunk_of_sample ((unat f, unat s) # nat_runs rs) (unat n - unat (ofs + (f - lch) * lspc))))"
      using Cons.prems(5,6,7) r ofs'
      by (intro Cons.IH [OF ge s0 refl f1]) (simp_all add: nat_runs_def)
    have "unat n - unat (ofs + (f - lch) * lspc) = unat n - unat ofs - (unat f - unat lch) * unat lspc"
      using ofs' by simp
    then show ?thesis
      using False s0 ih nge r by (simp add: nat_runs_def Let_def)
  qed
qed

lemma chunk_of_sample_le:
  assumes "sorted (f # map fst rs)" "list_all (\<lambda>(f, s). 0 < s) ((f, s) # rs)"
  shows "chunk_of_sample ((f, s) # rs) m \<le> f - 1 + m"
  using assms
proof (induction rs arbitrary: f s m)
  case Nil
  then show ?case by simp
next
  case (Cons r rs)
  obtain f' s' where r: "r = (f', s')" by (cases r)
  show ?case
  proof (cases "m < (f' - f) * s")
    case True
    then show ?thesis using r by simp
  next
    case False
    define x where "x = (f' - f) * s"
    have "chunk_of_sample ((f', s') # rs) (m - x) \<le> f' - 1 + (m - x)"
      using Cons.prems r by (intro Cons.IH) simp_all
    moreover have "f' - f \<le> x" using Cons.prems(2) by (simp add: x_def)
    moreover have "f \<le> f'" using Cons.prems(1) r by simp
    moreover have "x \<le> m" using False by (simp add: x_def)
    ultimately have "chunk_of_sample ((f', s') # rs) (m - x) \<le> f - 1 + m" by arith
    then show ?thesis using False r by (simp add: x_def)
  qed
qed

text \<open>
  The recursive reading of the run-length semantics agrees with the reading chunk by
  chunk: the chunk it names is the one whose samples include \<open>m\<close>.
\<close>

lemma div_bracket:
  fixes m s :: nat
  assumes "0 < s"
  shows "(m div s) * s \<le> m" "m < (m div s + 1) * s"
proof -
  show "(m div s) * s \<le> m" by simp
  have "m = (m div s) * s + m mod s" by simp
  moreover have "m mod s < s" using assms by simp
  ultimately show "m < (m div s + 1) * s" by (metis add.commute add_less_cancel_left mult.commute mult_Suc_right Suc_eq_plus1)
qed

lemma chunk_of_sample_bracket_gen:
  assumes "sorted (f # map fst rs)" "list_all (\<lambda>(f, s). 0 < s) ((f, s) # rs)" "1 \<le> f"
  shows "f - 1 \<le> chunk_of_sample ((f, s) # rs) m \<and>
         (\<Sum>j = f - 1..<chunk_of_sample ((f, s) # rs) m. samples_in_chunk ((f, s) # rs) j) \<le> m \<and>
         m < (\<Sum>j = f - 1..<Suc (chunk_of_sample ((f, s) # rs) m). samples_in_chunk ((f, s) # rs) j)"
  using assms
proof (induction rs arbitrary: f s m)
  case Nil
  then have s: "0 < s" by simp
  show ?case using div_bracket [OF s, of m] by (simp add: Suc_diff_le)
next
  case (Cons r rs)
  obtain f' s' where r: "r = (f', s')" by (cases r)
  have s: "0 < s" and ff: "f \<le> f'" and f1: "1 \<le> f'"
    using Cons.prems r by simp_all
  let ?rs = "(f, s) # (f', s') # rs"
  let ?x = "(f' - f) * s"
  show ?case
  proof (cases "m < ?x")
    case True
    let ?c = "f - 1 + m div s"
    have c: "chunk_of_sample ?rs m = ?c" using True by simp
    have "m div s < f' - f" using True s by (simp add: less_mult_imp_div_less)
    then have lt: "Suc ?c < f'" using Cons.prems(3) by simp
    have a: "(\<Sum>j = f - 1..<?c. samples_in_chunk ?rs j) = (\<Sum>j = f - 1..<?c. s)"
      using lt by (intro sum.cong) auto
    have b: "(\<Sum>j = f - 1..<Suc ?c. samples_in_chunk ?rs j) = (\<Sum>j = f - 1..<Suc ?c. s)"
      using lt by (intro sum.cong) auto
    show ?thesis
      unfolding r c a b using div_bracket [OF s, of m] by (simp add: Suc_diff_le)
  next
    case False
    let ?t = "(f', s') # rs"
    let ?c = "chunk_of_sample ?t (m - ?x)"
    have c: "chunk_of_sample ?rs m = ?c" using False by simp
    have "f' - 1 \<le> ?c \<and>
      (\<Sum>j = f' - 1..<?c. samples_in_chunk ?t j) \<le> m - ?x \<and>
      m - ?x < (\<Sum>j = f' - 1..<Suc ?c. samples_in_chunk ?t j)"
      using Cons.prems r f1 by (intro Cons.IH) simp_all
    then have ih: "f' - 1 \<le> ?c"
      "(\<Sum>j = f' - 1..<?c. samples_in_chunk ?t j) \<le> m - ?x"
      "m - ?x < (\<Sum>j = f' - 1..<Suc ?c. samples_in_chunk ?t j)"
      by blast+
    have low: "(\<Sum>j = f - 1..<f' - 1. samples_in_chunk ?rs j) = ?x"
    proof -
      have "(\<Sum>j = f - 1..<f' - 1. samples_in_chunk ?rs j) = (\<Sum>j = f - 1..<f' - 1. s)"
        by (intro sum.cong) auto
      then show ?thesis using ff Cons.prems(3) by simp
    qed
    have split: "\<And>k. f' - 1 \<le> k \<Longrightarrow>
        (\<Sum>j = f - 1..<k. samples_in_chunk ?rs j) = ?x + (\<Sum>j = f' - 1..<k. samples_in_chunk ?t j)"
    proof -
      fix k assume k: "f' - 1 \<le> k"
      have "(\<Sum>j = f - 1..<k. samples_in_chunk ?rs j) =
            (\<Sum>j = f - 1..<f' - 1. samples_in_chunk ?rs j) + (\<Sum>j = f' - 1..<k. samples_in_chunk ?rs j)"
        using ff k by (intro sum.atLeastLessThan_concat [symmetric]) simp_all
      moreover have "(\<Sum>j = f' - 1..<k. samples_in_chunk ?rs j) = (\<Sum>j = f' - 1..<k. samples_in_chunk ?t j)"
        by (intro sum.cong) auto
      ultimately show "(\<Sum>j = f - 1..<k. samples_in_chunk ?rs j) =
          ?x + (\<Sum>j = f' - 1..<k. samples_in_chunk ?t j)"
        using low by simp
    qed
    have "f - 1 \<le> ?c" using ih(1) ff by simp
    moreover have "(\<Sum>j = f - 1..<?c. samples_in_chunk ?rs j) \<le> m"
      using split [OF ih(1)] ih(2) False by linarith
    moreover have "f' - 1 \<le> Suc ?c" using ih(1) by simp
    then have "m < (\<Sum>j = f - 1..<Suc ?c. samples_in_chunk ?rs j)"
      using split [of "Suc ?c"] ih(3) False by linarith
    ultimately show ?thesis unfolding r c by simp
  qed
qed

lemma chunk_of_sample_bracket:
  assumes "rs \<noteq> []" "fst (hd rs) = 1" "sorted (map fst rs)" "list_all (\<lambda>(f, s). 0 < s) rs"
  shows "first_sample_of_chunk rs (chunk_of_sample rs m) \<le> m"
    and "m < first_sample_of_chunk rs (Suc (chunk_of_sample rs m))"
proof -
  obtain s rs' where rs: "rs = (1, s) # rs'"
    using assms(1,2) by (cases rs) auto
  have "sorted (1 # map fst rs')" using assms(3) rs by simp
  then have g: "(\<Sum>j = 1 - 1..<chunk_of_sample rs m. samples_in_chunk rs j) \<le> m \<and>
      m < (\<Sum>j = 1 - 1..<Suc (chunk_of_sample rs m). samples_in_chunk rs j)"
    using chunk_of_sample_bracket_gen [of 1 rs' s m] assms(4) rs by simp
  show "first_sample_of_chunk rs (chunk_of_sample rs m) \<le> m"
    and "m < first_sample_of_chunk rs (Suc (chunk_of_sample rs m))"
    using g by (simp_all add: first_sample_of_chunk_def atLeast0LessThan)
qed

text \<open>The examples of the specification: runs \<open>{(1,4)}\<close>.\<close>

lemma sampleToChunk_examples:
  "sampleToChunk ex_stsc 0 = Some 0" "sampleToChunk ex_stsc 1 = Some 0"
  "sampleToChunk ex_stsc 2 = Some 0" "sampleToChunk ex_stsc 3 = Some 0"
  "sampleToChunk ex_stsc 4 = Some 1" "sampleToChunk ex_stsc 5 = Some 1"
  "sampleToChunk ex_stsc 6 = Some 1" "sampleToChunk ex_stsc 7 = Some 1"
  by (simp_all add: sampleToChunk_def ex_stsc_def table_defs)

text \<open>
  C1. The claim: for every chunk-run table whose runs are ascending with the first run at
  chunk 1 and every sample index, \<^verbatim>\<open>sampleToChunk(n)\<close> is the 0-based index of the chunk
  that holds sample \<open>n\<close> under run-length semantics.

  As stated it fails on two kinds of table. The running sample count is a \<^verbatim>\<open>uint32_t\<close>:
  with runs \<open>{(1,65536),(65537,1)}\<close> the second run begins at sample \<open>2^32\<close>, the count
  wraps to 0, and sample 0 is put in chunk 65536. And the division by \<^verbatim>\<open>spc(i)\<close> is not
  guarded: with runs \<open>{(1,0),(2,1)}\<close> sample 0 is in chunk 1, and the function divides by
  zero.
\<close>

theorem sampleToChunk_counterexample:
  "stsc_table ex_stsc_wide [(1, 65536), (65537, 1)] \<and>
   sampleToChunk ex_stsc_wide 0 = Some 65536 \<and>
   chunk_of_sample (nat_runs [(1, 65536), (65537, 1)]) 0 = 0 \<and>
   stsc_table ex_stsc_empty_chunk [(1, 0), (2, 1)] \<and>
   sampleToChunk ex_stsc_empty_chunk 0 = None \<and>
   chunk_of_sample (nat_runs [(1, 0), (2, 1)]) 0 = 1"
  by (simp add: sampleToChunk_def stsc_table_def nat_runs_def ex_stsc_wide_def
      ex_stsc_empty_chunk_def table_defs)

text \<open>
  C1, amended: for every chunk-run table whose runs are ascending with the first run at
  chunk 1, whose samples-per-chunk values are all nonzero, and in which every run begins
  at a sample index below \<open>2^32\<close>, and for every sample index \<open>n\<close>, \<^verbatim>\<open>sampleToChunk(n)\<close>
  returns the 0-based index of the chunk that holds sample \<open>n\<close> under run-length
  semantics: the chunk that the walk over the runs names, whose first sample is at or
  before \<open>n\<close> and whose successor's first sample is after \<open>n\<close>.
\<close>

theorem sampleToChunk_run_length:
  assumes "stsc_table b rs" "rs \<noteq> []" "fst (hd rs) = 1"
    and "sorted (map (unat \<circ> fst) rs)"
    and "list_all (\<lambda>(f, s). s \<noteq> 0) rs"
    and "list_all (\<lambda>x. x < 2 ^ 32) (run_starts (nat_runs rs) 0)"
  shows "map_option unat (sampleToChunk b n) = Some (chunk_of_sample (nat_runs rs) (unat n)) \<and>
         first_sample_of_chunk (nat_runs rs) (chunk_of_sample (nat_runs rs) (unat n)) \<le> unat n \<and>
         unat n < first_sample_of_chunk (nat_runs rs) (Suc (chunk_of_sample (nat_runs rs) (unat n)))"
proof -
  obtain s rs' where rs: "rs = (1, s) # rs'"
    using assms(2,3) by (cases rs) auto
  have s0: "s \<noteq> 0" using assms(5) rs by simp
  have c: "stsc_count b = Some (of_nat (length rs))" "length rs < 2 ^ 32"
    using assms(1) by (simp_all add: stsc_table_def)
  have len: "unat (of_nat (length rs) :: u32) = length rs"
    using c(2) by (simp add: unat_of_nat)
  have "sampleToChunk b n = chunk_runs_loop rs n 0 1 1 1"
    using sampleToChunk_loop_runs [OF assms(1), of 0 n 0 1 1 1]
    by (simp add: sampleToChunk_def c(1) len)
  also have "\<dots> = chunk_runs_loop rs' n 0 (1 + n div s) 1 s"
    using s0 by (simp add: rs)
  also have "\<dots> = Some (of_nat (chunk_of_sample ((unat (1::u32), unat s) # nat_runs rs')
                        (unat n - unat (0::u32))))"
    using assms(4,5,6) by (intro chunk_runs_loop_correct) (simp_all add: rs s0 nat_runs_def)
  finally have eq: "sampleToChunk b n = Some (of_nat (chunk_of_sample (nat_runs rs) (unat n)))"
    by (simp add: rs nat_runs_def)
  have pos: "list_all (\<lambda>(f, s). 0 < s) (nat_runs rs)"
    using assms(5) by (auto simp add: nat_runs_def list_all_iff unat_gt_0 case_prod_unfold)
  have srt: "sorted (map fst (nat_runs rs))"
    using assms(4) by (simp add: nat_runs_def comp_def case_prod_unfold)
  have "chunk_of_sample ((1, unat s) # nat_runs rs') (unat n) \<le> 1 - 1 + unat n"
    using srt pos by (intro chunk_of_sample_le) (simp_all add: rs nat_runs_def)
  then have "chunk_of_sample (nat_runs rs) (unat n) < 2 ^ 32"
    using unsigned_less [of n, where 'a = nat] by (simp add: rs nat_runs_def)
  then have "map_option unat (sampleToChunk b n) = Some (chunk_of_sample (nat_runs rs) (unat n))"
    using eq by (simp add: unat_of_nat)
  moreover have ne: "nat_runs rs \<noteq> []" "fst (hd (nat_runs rs)) = 1"
    by (simp_all add: rs nat_runs_def)
  note chunk_of_sample_bracket [OF ne srt pos, of "unat n"]
  ultimately show ?thesis by blast
qed

theorem sampleToChunk_run_length_witness:
  "stsc_table ex_stsc_three [(1, 4), (3, 2), (5, 1)] \<and>
   [(1, 4), (3, 2), (5, 1 :: u32)] \<noteq> ([] :: (u32 \<times> u32) list) \<and>
   fst (hd [(1 :: u32, 4 :: u32), (3, 2), (5, 1)]) = 1 \<and>
   sorted (map (unat \<circ> fst) [(1 :: u32, 4 :: u32), (3, 2), (5, 1)]) \<and>
   list_all (\<lambda>(f, s). s \<noteq> 0) [(1 :: u32, 4 :: u32), (3, 2), (5, 1)] \<and>
   list_all (\<lambda>x. x < 2 ^ 32) (run_starts (nat_runs [(1, 4), (3, 2), (5, 1)]) 0) \<and>
   map_option unat (sampleToChunk ex_stsc_three 12) = Some 4 \<and>
   first_sample_of_chunk [(1, 4), (3, 2), (5, 1)] 4 \<le> 12 \<and>
   12 < first_sample_of_chunk [(1, 4), (3, 2), (5, 1)] (Suc 4)"
proof -
  have h1: "stsc_table ex_stsc_three [(1, 4), (3, 2), (5, 1)]"
    by (simp add: stsc_table_def ex_stsc_three_def table_defs)
  have h2: "[(1, 4), (3, 2), (5, 1 :: u32)] \<noteq> ([] :: (u32 \<times> u32) list)" by simp
  have h3: "fst (hd [(1 :: u32, 4 :: u32), (3, 2), (5, 1)]) = 1" by simp
  have h4: "sorted (map (unat \<circ> fst) [(1 :: u32, 4 :: u32), (3, 2), (5, 1)])" by simp
  have h5: "list_all (\<lambda>(f, s). s \<noteq> 0) [(1 :: u32, 4 :: u32), (3, 2), (5, 1)]" by simp
  have h6: "list_all (\<lambda>x. x < 2 ^ 32) (run_starts (nat_runs [(1, 4), (3, 2), (5, 1)]) 0)"
    by (simp add: nat_runs_def)
  show ?thesis
    using h1 h2 h3 h4 h5 h6 sampleToChunk_run_length [OF h1 h2 h3 h4 h5 h6, of 12]
    by (simp add: nat_runs_def)
qed

section \<open>Round trip of the boxes that keep their payload\<close>

text \<open>
  Writing a big-endian value gives back the bytes it was read from, a read from a good
  stream that holds enough bytes returns them and advances, and each decoder that keeps
  its payload is undone by \<^verbatim>\<open>write\<close>.
\<close>

lemma write32_be32: "write32 (be32 b0 b1 b2 b3) = [b0, b1, b2, b3]"
  unfolding write32_def be32_def
  by (simp, intro conjI; rule bit_word_eqI) (auto simp add: bit_simps dest: bit_imp_le_length)

lemma write24_be24: "write24 (be24 b0 b1 b2) = [b0, b1, b2]"
  unfolding write24_def be24_def
  by (simp, intro conjI; rule bit_word_eqI) (auto simp add: bit_simps dest: bit_imp_le_length)

lemma write32_ucast_ucast: "write32 (ucast (ucast (w :: u32) :: u64)) = write32 w"
proof -
  have "(ucast (ucast w :: u64) :: u32) = w"
    by (rule bit_word_eqI) (auto simp add: bit_simps)
  then show ?thesis by simp
qed

lemma four_bytes: "length bs = 4 \<Longrightarrow> [bs ! 0, bs ! 1, bs ! 2, bs ! 3] = bs"
  by (auto simp add: list_eq_iff_nth_eq less_Suc_eq numeral_eq_Suc)

lemma three_bytes: "length bs = 3 \<Longrightarrow> [bs ! 0, bs ! 1, bs ! 2] = bs"
  by (auto simp add: list_eq_iff_nth_eq less_Suc_eq numeral_eq_Suc)

lemma one_byte: "length bs = Suc 0 \<Longrightarrow> [bs ! 0] = bs"
  by (auto simp add: list_eq_iff_nth_eq)

lemma is_read_at:
  assumes "q' = q + n" "q' \<le> length d"
  shows "is_read n (stream_of d q) = (take n (drop q d), stream_of d q')"
  using assms by (simp add: is_read_def stream_of_def Let_def)

lemma read32_at:
  assumes "q' = q + 4" "q' \<le> length d"
  obtains w where "read32 (stream_of d q) = (Some w, stream_of d q')"
    and "write32 w = take 4 (drop q d)"
proof -
  let ?bs = "take 4 (drop q d)"
  have l: "length ?bs = 4" using assms by simp
  have "read32 (stream_of d q) = (Some (be32 (?bs ! 0) (?bs ! 1) (?bs ! 2) (?bs ! 3)), stream_of d q')"
    unfolding read32_def is_read_at [OF assms] using l by simp
  moreover have "write32 (be32 (?bs ! 0) (?bs ! 1) (?bs ! 2) (?bs ! 3)) = ?bs"
    unfolding write32_be32 using l by (rule four_bytes)
  ultimately show ?thesis using that by blast
qed

lemma read24_at:
  assumes "q' = q + 3" "q' \<le> length d"
  obtains w where "read24 (stream_of d q) = (Some w, stream_of d q')"
    and "write24 w = take 3 (drop q d)"
proof -
  let ?bs = "take 3 (drop q d)"
  have l: "length ?bs = 3" using assms by simp
  have "read24 (stream_of d q) = (Some (be24 (?bs ! 0) (?bs ! 1) (?bs ! 2)), stream_of d q')"
    unfolding read24_def is_read_at [OF assms] using l by simp
  moreover have "write24 (be24 (?bs ! 0) (?bs ! 1) (?bs ! 2)) = ?bs"
    unfolding write24_be24 using l by (rule three_bytes)
  ultimately show ?thesis using that by blast
qed

lemma read8_at:
  assumes "q' = q + 1" "q' \<le> length d"
  obtains v where "read8 (stream_of d q) = (Some v, stream_of d q')"
    and "write8 v = take 1 (drop q d)"
proof -
  let ?bs = "take 1 (drop q d)"
  have l: "length ?bs = Suc 0" using assms by simp
  have "read8 (stream_of d q) = (Some (?bs ! 0), stream_of d q')"
    unfolding read8_def is_read_at [OF assms] using l by simp
  moreover have "write8 (?bs ! 0) = ?bs"
    unfolding write8_def using l by (rule one_byte)
  ultimately show ?thesis using that by blast
qed

text \<open>What a header read that succeeded says about the stream.\<close>

lemma read32_Some:
  assumes "read32 (stream_of d q) = (Some w, s')"
  shows "q + 4 \<le> length d" "s' = stream_of d (q + 4)" "write32 w = take 4 (drop q d)"
proof -
  show a: "q + 4 \<le> length d"
    using assms by (auto simp add: read32_def is_read_def stream_of_def Let_def split: if_splits)
  from read32_at [OF refl a] obtain w' where
    "read32 (stream_of d q) = (Some w', stream_of d (q + 4))" "write32 w' = take 4 (drop q d)"
    by blast
  then show "s' = stream_of d (q + 4)" "write32 w = take 4 (drop q d)"
    using assms by simp_all
qed

lemma is_read_no_eof:
  assumes "is_read n (stream_of d q) = (bs, s')" "\<not> eofbit s'" "0 < n"
  shows "q + n \<le> length d" "s' = stream_of d (q + n)" "bs = take n (drop q d)"
  using assms by (auto simp add: is_read_def stream_of_def Let_def split: if_splits)

lemma take_join:
  "a \<le> n \<Longrightarrow> take a (drop p xs) @ take (n - a) (drop (p + a) xs) = take n (drop p xs)"
  using take_add [of a "n - a" "drop p xs"] by (simp add: add.commute)

lemma size_sub_ge:
  assumes "b \<le> a" "a < 2 ^ 32"
  shows "size_sub a b = a - b"
proof -
  have a64: "a - b < 2 ^ 64"
    using assms(2) by (rule_tac less_trans [of _ "2 ^ 32"]) auto
  have "b < 2 ^ 64"
    using assms by (rule_tac less_trans [of _ "2 ^ 32"]) auto
  then have "b mod 2 ^ 64 = b" by (rule mod_less)
  moreover have "a + 2 ^ 64 - b = (a - b) + 2 ^ 64" using assms(1) by (rule Nat.diff_add_assoc2)
  moreover have "(a - b) mod 2 ^ 64 = a - b" using a64 by (rule mod_less)
  ultimately show ?thesis unfolding size_sub_def by (simp only: mod_add_self2)
qed

lemma size_sub_lt:
  assumes "a < b" "b < 2 ^ 32"
  shows "\<not> resize_ok (size_sub a b)"
proof -
  have "b < 2 ^ 64"
    using assms by (rule_tac less_trans [of _ "2 ^ 32"]) auto
  then have m: "b mod 2 ^ 64 = b" by (rule mod_less)
  have "b \<le> (2::nat) ^ 63"
    using assms(2) by (rule_tac order.trans [of _ "2 ^ 32"]) auto
  then have ge: "(2::nat) ^ 63 \<le> a + 2 ^ 64 - b" by simp
  have "a + 2 ^ 64 - b < 2 ^ 64" using assms(1) by simp
  then have "(a + 2 ^ 64 - b) mod 2 ^ 64 = a + 2 ^ 64 - b" by (rule mod_less)
  then show ?thesis unfolding size_sub_def resize_ok_def m using ge by simp
qed

lemma resize_ok_small: "n < 2 ^ 32 \<Longrightarrow> resize_ok n"
  unfolding resize_ok_def by (rule_tac less_trans [of _ "2 ^ 32"]) auto

lemma size_sub_cases:
  assumes "sz < 2 ^ 32" "h < 2 ^ 32" "resize_ok (size_sub sz h)"
  shows "h \<le> sz" "size_sub sz h = sz - h"
proof -
  show "h \<le> sz" using size_sub_lt [of sz h] assms by (cases "h \<le> sz") auto
  then show "size_sub sz h = sz - h" using assms(1) by (rule size_sub_ge)
qed

lemmas run_simps = Let_def need_def bindE_def

lemma unknown_roundtrip:
  assumes "take 8 (drop p d) = write32 (of_nat sz) @ ty" "length ty = 4"
    and "p + sz \<le> length d" "sz < 2 ^ 32"
    and "unknown_parse ty sz (stream_of d (p + 8)) = Inr (b, s')"
  shows "box_write b = Inr (take sz (drop p d))"
proof -
  have ok: "resize_ok (size_sub sz 8)"
    using assms(5) by (auto simp add: unknown_parse_def Let_def split: if_splits)
  have le: "8 \<le> sz" and n: "size_sub sz 8 = sz - 8"
    using size_sub_cases [OF assms(4) _ ok] by simp_all
  have rd: "is_read (sz - 8) (stream_of d (p + 8)) =
      (take (sz - 8) (drop (p + 8) d), stream_of d (p + sz))"
    using assms(3) le by (intro is_read_at) simp_all
  have b: "b = UnknownBox ty sz (take (sz - 8) (drop (p + 8) d))"
    using assms(5) assms(3) le ok [unfolded n]
    by (simp add: unknown_parse_def n rd run_simps)
  show ?thesis
    unfolding b box_write.simps n box_header_def
    using take_join [OF le, of p d] le assms(1,2) by (cases "8 < sz") auto
qed

lemma free_roundtrip:
  assumes "take 8 (drop p d) = write32 (of_nat sz) @ BOX_FREE"
    and "p + sz \<le> length d" "sz < 2 ^ 32"
    and "free_parse sz (stream_of d (p + 8)) = Inr (b, s')"
  shows "box_write b = Inr (take sz (drop p d))"
proof -
  have ok: "resize_ok (size_sub sz 8)"
    using assms(4) by (auto simp add: free_parse_def Let_def split: if_splits)
  have le: "8 \<le> sz" and n: "size_sub sz 8 = sz - 8"
    using size_sub_cases [OF assms(3) _ ok] by simp_all
  have rd: "is_read (sz - 8) (stream_of d (p + 8)) =
      (take (sz - 8) (drop (p + 8) d), stream_of d (p + sz))"
    using assms(2) le by (intro is_read_at) simp_all
  have b: "b = BoxFREE sz (take (sz - 8) (drop (p + 8) d))"
    using assms(4) assms(2) le ok [unfolded n]
    by (simp add: free_parse_def n rd run_simps)
  have "take 4 BOX_FREE = BOX_FREE" by (simp add: BOX_FREE_def)
  then show ?thesis
    unfolding b box_write.simps n box_header_def
    using take_join [OF le, of p d] le assms(1) by (cases "8 < sz") auto
qed

lemma fullbuf_roundtrip:
  assumes "take 8 (drop p d) = write32 (of_nat sz) @ ty" "length ty = 4"
    and "p + sz \<le> length d" "sz < 2 ^ 32"
    and "fullbuf_parse ty sz (stream_of d (p + 8)) = Inr (b, s')"
  shows "box_write b = Inr (take sz (drop p d))"
proof -
  have ok: "resize_ok (size_sub sz 12)"
    using assms(5) by (auto simp add: fullbuf_parse_def Let_def split: if_splits)
  have le: "12 \<le> sz" and n: "size_sub sz 12 = sz - 12"
    using size_sub_cases [OF assms(4) _ ok] by simp_all
  obtain v where v: "read8 (stream_of d (p + 8)) = (Some v, stream_of d (p + 9))"
      "write8 v = take 1 (drop (p + 8) d)"
    using read8_at [of "p + 9" "p + 8" d] assms(3) le by auto
  obtain fl where fl: "read24 (stream_of d (p + 9)) = (Some fl, stream_of d (p + 12))"
      "write24 fl = take 3 (drop (p + 9) d)"
    using read24_at [of "p + 12" "p + 9" d] assms(3) le by auto
  have rd: "is_read (sz - 12) (stream_of d (p + 12)) =
      (take (sz - 12) (drop (p + 12) d), stream_of d (p + sz))"
    using assms(3) le by (intro is_read_at) simp_all
  have b: "b = FullBufBox \<lparr>fb_type = ty, fb_size = sz, version = v, flags = fl,
              buf = take (sz - 12) (drop (p + 12) d)\<rparr>"
    using assms(5) assms(3) le ok [unfolded n]
    by (simp add: fullbuf_parse_def n v(1) fl(1) rd run_simps)
  have j1: "take 8 (drop p d) @ take 1 (drop (p + 8) d) = take 9 (drop p d)"
    using take_join [of 8 9 p d] by simp
  have j2: "take 9 (drop p d) @ take 3 (drop (p + 9) d) = take 12 (drop p d)"
    using take_join [of 9 12 p d] by simp
  have j3: "take 12 (drop p d) @ take (sz - 12) (drop (p + 12) d) = take sz (drop p d)"
    using take_join [of 12 sz p d] le by simp
  have "take 8 (drop p d) @ take 1 (drop (p + 8) d) @ take 3 (drop (p + 9) d) @
        take (sz - 12) (drop (p + 12) d) = take sz (drop p d)"
    by (simp only: append_assoc [symmetric] j1 j2 j3)
  then show ?thesis
    unfolding b box_write.simps fullbox_header_def box_header_def
    using v(2) fl(2) le assms(1,2) n by simp
qed

lemma read_compat_at:
  assumes "q + 4 * k \<le> length d"
  obtains ws where "read_compat k (stream_of d q) = Inr (ws, stream_of d (q + 4 * k))"
    and "concat ws = take (4 * k) (drop q d)"
proof -
  have "\<exists>ws. read_compat k (stream_of d q) = Inr (ws, stream_of d (q + 4 * k)) \<and>
             concat ws = take (4 * k) (drop q d)"
    using assms
  proof (induction k arbitrary: q)
    case 0
    then show ?case by simp
  next
    case (Suc k)
    have rd: "is_read 4 (stream_of d q) = (take 4 (drop q d), stream_of d (q + 4))"
      using Suc.prems by (intro is_read_at) simp_all
    have len: "length (take 4 (drop q d)) = 4" using Suc.prems by simp
    obtain ws where ws: "read_compat k (stream_of d (q + 4)) = Inr (ws, stream_of d (q + 4 + 4 * k))"
        "concat ws = take (4 * k) (drop (q + 4) d)"
      using Suc.IH [of "q + 4"] Suc.prems by auto
    have pos: "q + 4 + 4 * k = q + 4 * Suc k" by simp
    have "take 4 (drop q d) @ take (4 * k) (drop (q + 4) d) = take (4 * Suc k) (drop q d)"
      using take_join [of 4 "4 * Suc k" q d] by simp
    then show ?case
      using ws len by (simp add: rd pos del: mult_Suc_right)
  qed
  then show ?thesis using that by blast
qed

lemma size_sub_16_small:
  assumes "sz < 16"
  shows "\<not> size_sub sz 16 div 4 < 2 ^ 31"
proof -
  have "(16::nat) mod 2 ^ 64 = 16" by simp
  moreover have "sz + 2 ^ 64 - 16 < 2 ^ 64" using assms by simp
  then have "(sz + 2 ^ 64 - 16) mod 2 ^ 64 = sz + 2 ^ 64 - 16" by (rule mod_less)
  ultimately have "size_sub sz 16 = sz + 2 ^ 64 - 16" by (simp only: size_sub_def)
  moreover have "(2::nat) ^ 31 * 4 \<le> sz + 2 ^ 64 - 16" by simp
  ultimately show ?thesis by (simp add: less_eq_div_iff_mult_less_eq)
qed

lemma ftyp_parse_size:
  assumes "ftyp_parse sz s = Inr (b, s')"
  shows "16 \<le> sz"
proof (rule ccontr)
  assume "\<not> 16 \<le> sz"
  then have big: "\<not> size_sub sz 16 div 4 < 2 ^ 31" using size_sub_16_small by simp
  obtain major s1 where r1: "is_read 4 s = (major, s1)" by (cases "is_read 4 s")
  show False
  proof (cases "need (read32 s1)")
    case (Inl e)
    then show False
      using assms by (simp add: ftyp_parse_def r1 bindE_def split: if_splits)
  next
    case (Inr x)
    then show False
      using assms big by (cases x) (simp add: ftyp_parse_def r1 bindE_def split: if_splits)
  qed
qed

lemma ftyp_roundtrip:
  assumes "take 8 (drop p d) = write32 (of_nat sz) @ BOX_FTYP"
    and "p + sz \<le> length d" "sz < 2 ^ 32" "4 dvd sz"
    and "ftyp_parse sz (stream_of d (p + 8)) = Inr (b, s')"
  shows "box_write b = Inr (take sz (drop p d))"
proof -
  have le: "16 \<le> sz" using assms(5) by (rule ftyp_parse_size)
  have n: "size_sub sz 16 = sz - 16" using le assms(3) by (rule size_sub_ge)
  have "4 dvd sz - 16" using assms(4) by simp
  then obtain k where k': "sz - 16 = 4 * k" by auto
  then have k: "sz = 16 + 4 * k" using le by simp
  have kdiv: "(sz - 16) div 4 = k" using k by simp
  have "4 * k < 4 * 2 ^ 31" using k assms(3) by simp
  then have ksmall: "k < 2 ^ 31" by (simp only: nat_mult_less_cancel_disj)
  have rd: "is_read 4 (stream_of d (p + 8)) = (take 4 (drop (p + 8) d), stream_of d (p + 12))"
    using assms(2) le by (intro is_read_at) simp_all
  have len: "length (take 4 (drop (p + 8) d)) = 4" using assms(2) le by simp
  obtain minor where minor: "read32 (stream_of d (p + 12)) = (Some minor, stream_of d (p + 16))"
      "write32 minor = take 4 (drop (p + 12) d)"
    using read32_at [of "p + 16" "p + 12" d] assms(2) le by auto
  obtain ws where ws: "read_compat k (stream_of d (p + 16)) = Inr (ws, stream_of d (p + 16 + 4 * k))"
      "concat ws = take (4 * k) (drop (p + 16) d)"
    using read_compat_at [of "p + 16" k d] assms(2) k by auto
  have b: "b = BoxFTYP sz (take 4 (drop (p + 8) d)) minor ws"
    using assms(5) len ksmall
    by (simp add: ftyp_parse_def n kdiv rd minor(1) ws(1) run_simps)
  have j1: "take 8 (drop p d) @ take 4 (drop (p + 8) d) = take 12 (drop p d)"
    using take_join [of 8 12 p d] by simp
  have j2: "take 12 (drop p d) @ take 4 (drop (p + 12) d) = take 16 (drop p d)"
    using take_join [of 12 16 p d] by simp
  have j3: "take 16 (drop p d) @ take (4 * k) (drop (p + 16) d) = take sz (drop p d)"
    using take_join [of 16 sz p d] k by simp
  have "take 8 (drop p d) @ take 4 (drop (p + 8) d) @ take 4 (drop (p + 12) d) @
        take (4 * k) (drop (p + 16) d) = take sz (drop p d)"
    by (simp only: append_assoc [symmetric] j1 j2 j3)
  moreover have "take 4 BOX_FTYP = BOX_FTYP" by (simp add: BOX_FTYP_def)
  ultimately show ?thesis
    unfolding b box_write.simps box_header_def
    using minor(2) ws(2) assms(1) by simp
qed

lemma bindE_Inr: "bindE m f = Inr y \<longleftrightarrow> (\<exists>x. m = Inr x \<and> f x = Inr y)"
  by (cases m) (simp_all add: bindE_def)

lemma mvhd_parse_size:
  assumes "mvhd_parse sz s = Inr (b, s')" "retains_payload b"
  shows "resize_ok (size_sub sz 36)"
  using assms
  by (auto simp add: mvhd_parse_def bindE_Inr Let_def retains_payload_def
      split: if_splits prod.splits)

lemma mvhd_roundtrip:
  assumes "take 8 (drop p d) = write32 (of_nat sz) @ BOX_MVHD"
    and "p + sz \<le> length d" "sz < 2 ^ 32"
    and "mvhd_parse sz (stream_of d (p + 8)) = Inr (b, s')" "retains_payload b"
  shows "box_write b = Inr (take sz (drop p d))"
proof -
  have ok: "resize_ok (size_sub sz 36)" using assms(4,5) by (rule mvhd_parse_size)
  have le: "36 \<le> sz" and n: "size_sub sz 36 = sz - 36"
    using size_sub_cases [OF assms(3) _ ok] by simp_all
  obtain v where v: "read8 (stream_of d (p + 8)) = (Some v, stream_of d (p + 9))"
      "write8 v = take 1 (drop (p + 8) d)"
    using read8_at [of "p + 9" "p + 8" d] assms(2) le by auto
  obtain fl where fl: "read24 (stream_of d (p + 9)) = (Some fl, stream_of d (p + 12))"
      "write24 fl = take 3 (drop (p + 9) d)"
    using read24_at [of "p + 12" "p + 9" d] assms(2) le by auto
  obtain cr where cr: "read32 (stream_of d (p + 12)) = (Some cr, stream_of d (p + 16))"
      "write32 cr = take 4 (drop (p + 12) d)"
    using read32_at [of "p + 16" "p + 12" d] assms(2) le by auto
  obtain mo where mo: "read32 (stream_of d (p + 16)) = (Some mo, stream_of d (p + 20))"
      "write32 mo = take 4 (drop (p + 16) d)"
    using read32_at [of "p + 20" "p + 16" d] assms(2) le by auto
  obtain ts where ts: "read32 (stream_of d (p + 20)) = (Some ts, stream_of d (p + 24))"
      "write32 ts = take 4 (drop (p + 20) d)"
    using read32_at [of "p + 24" "p + 20" d] assms(2) le by auto
  obtain du where du: "read32 (stream_of d (p + 24)) = (Some du, stream_of d (p + 28))"
      "write32 du = take 4 (drop (p + 24) d)"
    using read32_at [of "p + 28" "p + 24" d] assms(2) le by auto
  obtain ra where ra: "read32 (stream_of d (p + 28)) = (Some ra, stream_of d (p + 32))"
      "write32 ra = take 4 (drop (p + 28) d)"
    using read32_at [of "p + 32" "p + 28" d] assms(2) le by auto
  obtain vo where vo: "read32 (stream_of d (p + 32)) = (Some vo, stream_of d (p + 36))"
      "write32 vo = take 4 (drop (p + 32) d)"
    using read32_at [of "p + 36" "p + 32" d] assms(2) le by auto
  have rd: "is_read (sz - 36) (stream_of d (p + 36)) =
      (take (sz - 36) (drop (p + 36) d), stream_of d (p + sz))"
    using assms(2) le by (intro is_read_at) simp_all
  have b: "b = BoxMVHD sz v fl
      (Some \<lparr>created = cr, modified = mo, timeScale = ts, duration = ucast du, rate = ra,
             volume = vo\<rparr>) (take (sz - 36) (drop (p + 36) d))"
    using assms(4,5) assms(2) le ok [unfolded n]
    by (auto simp add: mvhd_parse_def n v(1) fl(1) cr(1) mo(1) ts(1) du(1) ra(1) vo(1) rd
        run_simps retains_payload_def split: if_splits)
  have j: "take 8 (drop p d) @ take 1 (drop (p + 8) d) = take 9 (drop p d)"
    "take 9 (drop p d) @ take 3 (drop (p + 9) d) = take 12 (drop p d)"
    "take 12 (drop p d) @ take 4 (drop (p + 12) d) = take 16 (drop p d)"
    "take 16 (drop p d) @ take 4 (drop (p + 16) d) = take 20 (drop p d)"
    "take 20 (drop p d) @ take 4 (drop (p + 20) d) = take 24 (drop p d)"
    "take 24 (drop p d) @ take 4 (drop (p + 24) d) = take 28 (drop p d)"
    "take 28 (drop p d) @ take 4 (drop (p + 28) d) = take 32 (drop p d)"
    "take 32 (drop p d) @ take 4 (drop (p + 32) d) = take 36 (drop p d)"
    "take 36 (drop p d) @ take (sz - 36) (drop (p + 36) d) = take sz (drop p d)"
    using take_join [of 8 9 p d] take_join [of 9 12 p d] take_join [of 12 16 p d]
      take_join [of 16 20 p d] take_join [of 20 24 p d] take_join [of 24 28 p d]
      take_join [of 28 32 p d] take_join [of 32 36 p d] take_join [of 36 sz p d] le
    by simp_all
  have "take 8 (drop p d) @ take 1 (drop (p + 8) d) @ take 3 (drop (p + 9) d) @
        take 4 (drop (p + 12) d) @ take 4 (drop (p + 16) d) @ take 4 (drop (p + 20) d) @
        take 4 (drop (p + 24) d) @ take 4 (drop (p + 28) d) @ take 4 (drop (p + 32) d) @
        take (sz - 36) (drop (p + 36) d) = take sz (drop p d)"
    by (simp only: append_assoc [symmetric] j)
  moreover have "take 4 BOX_MVHD = BOX_MVHD" by (simp add: BOX_MVHD_def)
  ultimately show ?thesis
    unfolding b box_write.simps fullbox_header_def box_header_def
    using v(2) fl(2) cr(2) mo(2) ts(2) du(2) ra(2) vo(2) assms(1)
    by (simp add: write32_ucast_ucast)
qed


lemma simplelist_parse_kind:
  assumes "simplelist_parse fuel ty sz s = Inr (b, s')"
  shows "\<not> retains_payload b"
  using assms
  by (cases fuel) (auto simp add: Let_def retains_payload_def split: sum.splits prod.splits)

lemma unknownref_parse_kind:
  assumes "unknownref_parse ty sz s = Inr (b, s')"
  shows "\<not> retains_payload b"
  using assms by (auto simp add: unknownref_parse_def Let_def retains_payload_def)

lemma createBox_cases:
  assumes "createBox fuel ty sz s = Inr (b, s')" "length ty = 4" "retains_payload b"
  shows "(chktype ty BOX_FTYP \<and> ty = BOX_FTYP \<and> ftyp_parse sz s = Inr (b, s')) \<or>
         (ty = BOX_FREE \<and> free_parse sz s = Inr (b, s')) \<or>
         (ty = BOX_MVHD \<and> mvhd_parse sz s = Inr (b, s')) \<or>
         fullbuf_parse ty sz s = Inr (b, s') \<or>
         unknown_parse ty sz s = Inr (b, s')"
proof -
  have t: "take 4 ty = ty" using assms(2) by simp
  have eq: "\<And>c. length c = 4 \<Longrightarrow> chktype ty c \<longleftrightarrow> ty = c"
    using t by (auto simp add: chktype_def)
  have l: "length BOX_FTYP = 4" "length BOX_FREE = 4" "length BOX_MVHD = 4" "length BOX_MDHD = 4"
    "length BOX_TKHD = 4" "length BOX_HDLR = 4" "length BOX_STSC = 4" "length BOX_STSD = 4"
    "length BOX_STSS = 4" "length BOX_STSZ = 4" "length BOX_STCO = 4" "length BOX_STTS = 4"
    "length BOX_CTTS = 4"
    by (simp_all add: box_type_defs)
  show ?thesis
    using assms(1) simplelist_parse_kind [of fuel ty sz s b s'] unknownref_parse_kind [of ty sz s b s']
      assms(3)
    by (simp add: eq l split: if_splits)
qed

text \<open>
  C8. The claim: for any box decoded with its fields or payload retained, a file-type box
  among them, \<^verbatim>\<open>write\<close> on the decoded node emits exactly the original bytes of the box.

  \<^verbatim>\<open>BoxFTYP::parse\<close> reads \<^verbatim>\<open>(size-16)/4\<close> brands and seeks over what is left, and \<^verbatim>\<open>write\<close>
  emits the brands only: of a file-type box of declared size 18 it writes the first 16
  bytes. And a decoder that reaches the end of the file leaves the rest of the payload
  zero: of an unknown box of declared size 12 in a file of 10 bytes, \<^verbatim>\<open>write\<close> emits 12
  bytes, the last two of them zero.
\<close>

theorem roundtrip_counterexample:
  "read32 (stream_of ex_ftyp18 0) = (Some 18, stream_of ex_ftyp18 4) \<and>
   is_read 4 (stream_of ex_ftyp18 4) = (BOX_FTYP, stream_of ex_ftyp18 8) \<and>
   createBox 0 BOX_FTYP 18 (stream_of ex_ftyp18 8) =
     Inr (BoxFTYP 18 [0x69, 0x73, 0x6F, 0x6D] 512 [], stream_of ex_ftyp18 18) \<and>
   box_write (BoxFTYP 18 [0x69, 0x73, 0x6F, 0x6D] 512 []) = Inr (take 16 ex_ftyp18) \<and>
   take 16 ex_ftyp18 \<noteq> ex_ftyp18 \<and>
   read32 (stream_of ex_truncated 0) = (Some 12, stream_of ex_truncated 4) \<and>
   is_read 4 (stream_of ex_truncated 4) = ([0x61, 0x62, 0x63, 0x64], stream_of ex_truncated 8) \<and>
   createBox 0 [0x61, 0x62, 0x63, 0x64] 12 (stream_of ex_truncated 8) =
     Inr (UnknownBox [0x61, 0x62, 0x63, 0x64] 12 [1, 2, 0, 0],
          \<lparr>data = ex_truncated, gpos = 10, failbit = True, eofbit = True\<rparr>) \<and>
   box_write (UnknownBox [0x61, 0x62, 0x63, 0x64] 12 [1, 2, 0, 0]) = Inr (ex_truncated @ [0, 0])"
proof -
  have r: "replicate 2 (0 :: u8) = [0, 0]"
    by (simp add: numeral_2_eq_2)
  show ?thesis
    by (simp add: chktype_def has_child_def box_type_defs ftyp_parse_def unknown_parse_def
        stream_defs ex_ftyp18_def ex_truncated_def box_header_def write32_def r)
qed

text \<open>
  C8, amended: for a box whose declared bytes are all in the stream and that is decoded
  as a file-type box of a declared size divisible by 4, as a \<^verbatim>\<open>free\<close> box, as an
  opaque-preserved unknown box, as a full box that stores its raw payload, or as a movie
  header of version 0, \<^verbatim>\<open>write\<close> on the decoded node emits exactly the original bytes of
  the box, header and payload.

  The stream is at the start \<open>p\<close> of the box; the size and the type are read as the loop
  of \<^verbatim>\<open>BoxSimpleList::parse\<close> reads them, and \<^verbatim>\<open>createBox\<close> decodes the payload.
\<close>

theorem retained_box_roundtrip:
  assumes "read32 (stream_of d p) = (Some sz, s1)"
    and "is_read 4 s1 = (ty, s2)" and "\<not> eofbit s2"
    and "createBox fuel ty (unat sz) s2 = Inr (b, s3)"
    and "retains_payload b"
    and "p + unat sz \<le> length d"
    and "chktype ty BOX_FTYP \<longrightarrow> 4 dvd unat sz"
  shows "box_write b = Inr (take (unat sz) (drop p d))"
proof -
  have h1: "p + 4 \<le> length d" "s1 = stream_of d (p + 4)" "write32 sz = take 4 (drop p d)"
    using read32_Some [OF assms(1)] by simp_all
  have h2: "p + 4 + 4 \<le> length d" "s2 = stream_of d (p + 4 + 4)" "ty = take 4 (drop (p + 4) d)"
    using is_read_no_eof [OF assms(2) [unfolded h1(2)] assms(3)] by simp_all
  have "p + 4 + 4 = p + 8" by simp
  then have s2: "s2 = stream_of d (p + 8)" using h2(2) by (simp only:)
  have len: "length ty = 4" using h2(1,3) by simp
  have hdr: "take 8 (drop p d) = write32 (of_nat (unat sz)) @ ty"
    using take_join [of 4 8 p d] h1(3) h2(3) by simp
  have small: "unat sz < 2 ^ 32" using unsigned_less [of sz, where 'a = nat] by simp
  note c = createBox_cases [OF assms(4) [unfolded s2] len assms(5)]
  then consider
      (ftyp) "chktype ty BOX_FTYP" "ty = BOX_FTYP" "ftyp_parse (unat sz) (stream_of d (p + 8)) = Inr (b, s3)"
    | (free) "ty = BOX_FREE" "free_parse (unat sz) (stream_of d (p + 8)) = Inr (b, s3)"
    | (mvhd) "ty = BOX_MVHD" "mvhd_parse (unat sz) (stream_of d (p + 8)) = Inr (b, s3)"
    | (fullbuf) "fullbuf_parse ty (unat sz) (stream_of d (p + 8)) = Inr (b, s3)"
    | (unknown) "unknown_parse ty (unat sz) (stream_of d (p + 8)) = Inr (b, s3)"
    by blast
  then show ?thesis
  proof cases
    case ftyp
    then show ?thesis
      using ftyp_roundtrip [OF hdr [unfolded ftyp(2)] assms(6) small _ ftyp(3)] assms(7) by simp
  next
    case free
    then show ?thesis
      using free_roundtrip [OF hdr [unfolded free(1)] assms(6) small free(2)] by simp
  next
    case mvhd
    then show ?thesis
      using mvhd_roundtrip [OF hdr [unfolded mvhd(1)] assms(6) small mvhd(2) assms(5)] by simp
  next
    case fullbuf
    then show ?thesis
      using fullbuf_roundtrip [OF hdr len assms(6) small fullbuf] by simp
  next
    case unknown
    then show ?thesis
      using unknown_roundtrip [OF hdr len assms(6) small unknown] by simp
  qed
qed

theorem retained_box_roundtrip_witness:
  "read32 (stream_of ex_ftyp20 0) = (Some 20, stream_of ex_ftyp20 4) \<and>
   is_read 4 (stream_of ex_ftyp20 4) = (BOX_FTYP, stream_of ex_ftyp20 8) \<and>
   \<not> eofbit (stream_of ex_ftyp20 8) \<and>
   createBox 0 BOX_FTYP (unat (20 :: u32)) (stream_of ex_ftyp20 8) =
     Inr (BoxFTYP 20 [0x69, 0x73, 0x6F, 0x6D] 512 [[0x6D, 0x70, 0x34, 0x31]],
          stream_of ex_ftyp20 20) \<and>
   retains_payload (BoxFTYP 20 [0x69, 0x73, 0x6F, 0x6D] 512 [[0x6D, 0x70, 0x34, 0x31]]) \<and>
   0 + unat (20 :: u32) \<le> length ex_ftyp20 \<and>
   chktype BOX_FTYP BOX_FTYP \<and> 4 dvd unat (20 :: u32) \<and>
   box_write (BoxFTYP 20 [0x69, 0x73, 0x6F, 0x6D] 512 [[0x6D, 0x70, 0x34, 0x31]]) =
     Inr ex_ftyp20"
proof -
  have h1: "read32 (stream_of ex_ftyp20 0) = (Some 20, stream_of ex_ftyp20 4)"
    by (simp add: stream_defs ex_ftyp20_def)
  have h2: "is_read 4 (stream_of ex_ftyp20 4) = (BOX_FTYP, stream_of ex_ftyp20 8)"
    by (simp add: stream_defs ex_ftyp20_def BOX_FTYP_def)
  have h3: "\<not> eofbit (stream_of ex_ftyp20 8)"
    by (simp add: stream_of_def)
  have h4: "createBox 0 BOX_FTYP (unat (20 :: u32)) (stream_of ex_ftyp20 8) =
     Inr (BoxFTYP 20 [0x69, 0x73, 0x6F, 0x6D] 512 [[0x6D, 0x70, 0x34, 0x31]],
          stream_of ex_ftyp20 20)"
    by (simp add: chktype_def box_type_defs ftyp_parse_def stream_defs ex_ftyp20_def
        numeral_eq_Suc [of "Num.One"])
  have h5: "retains_payload (BoxFTYP 20 [0x69, 0x73, 0x6F, 0x6D] 512 [[0x6D, 0x70, 0x34, 0x31]])"
    by (simp add: retains_payload_def)
  have h6: "0 + unat (20 :: u32) \<le> length ex_ftyp20"
    by (simp add: ex_ftyp20_def)
  have h7: "chktype BOX_FTYP BOX_FTYP \<longrightarrow> 4 dvd unat (20 :: u32)"
    by simp
  have h8: "chktype BOX_FTYP BOX_FTYP \<and> 4 dvd unat (20 :: u32)"
    by (simp add: chktype_def)
  show ?thesis
    using h1 h2 h3 h4 h5 h6 h8 retained_box_roundtrip [OF h1 h2 h3 h4 h5 h6 h7]
    by (simp add: ex_ftyp20_def)
qed

end
